theory Spec2Isabelle
  imports
    Main
    "HOL-Library.Word"
    "HOL-Library.Multiset"
    "HOL-Library.Char_ord"
    "HOL-Library.List_Lexorder"
begin

section \<open>ABCU Advising Assistant: the course record and the three hash tables\<close>

text \<open>
  The repository holds three variants of one console program,
  \<^verbatim>\<open>artifacts/enhancement1\<close>, \<^verbatim>\<open>enhancement2\<close> and \<^verbatim>\<open>enhancement3\<close>
  (each one file \<^verbatim>\<open>AdvisingAssistant.cpp\<close>), called E1, E2 and E3 below.
  All three share the class \<^verbatim>\<open>Course\<close> and the helper \<^verbatim>\<open>toUpper\<close>. E1 stores the
  courses in a \<^verbatim>\<open>std::unordered_map\<close>; E2 and E3 store them in a hand-written
  table of 17 chained buckets, whose \<^verbatim>\<open>hash\<close>, \<^verbatim>\<open>insert\<close>, \<^verbatim>\<open>getCourse\<close> and
  \<^verbatim>\<open>getSortedCourseCodes\<close> are the same code in both files. E1 and E2 load a CSV
  file, E3 loads the rows of an SQLite query.
\<close>

subsection \<open>Errors\<close>

text \<open>
  Every failure of the source is a \<^verbatim>\<open>throw runtime_error(msg)\<close>; the message is the
  only thing that tells two failures apart. One constructor stands for each message:
  \<^item> \<open>InvalidCourseData\<close>: \<^verbatim>\<open>"Invalid Course Data: Code or Title is missing."\<close>
  \<^item> \<open>MalformedLine\<close>: \<^verbatim>\<open>"Malformed line in file."\<close>
  \<^item> \<open>CouldNotOpenFile f\<close>: \<^verbatim>\<open>"Could not open file: " + f\<close>
  \<^item> \<open>ErrorOnLine n e\<close>: \<^verbatim>\<open>"Error on line " + to_string(n) + ": " + e.what()\<close>
  \<^item> \<open>NoDataLoaded\<close>: \<^verbatim>\<open>"No data loaded."\<close>
  \<^item> \<open>CourseNotFound\<close>: \<^verbatim>\<open>"Course not found."\<close>
  \<^item> \<open>CouldNotOpenDatabase\<close>: \<^verbatim>\<open>"Could not open database: ABCU.db"\<close> (E3)
  \<^item> \<open>FailedToQuery\<close>: \<^verbatim>\<open>"Failed to query database."\<close> (E3)
\<close>

datatype error =
    InvalidCourseData
  | MalformedLine
  | CouldNotOpenFile string
  | ErrorOnLine nat error
  | NoDataLoaded
  | CourseNotFound
  | CouldNotOpenDatabase
  | FailedToQuery

subsection \<open>The class Course (the same text in E1, E2 and E3)\<close>

record Course =
  code :: string
  title :: string
  prerequisites :: "string list"

text \<open>\<^verbatim>\<open>Course() {}\<close>: the default constructor leaves the three members empty and
  does not call \<^verbatim>\<open>validate\<close>.\<close>

definition Course_default :: Course where
  "Course_default = \<lparr>code = [], title = [], prerequisites = []\<rparr>"

text \<open>\<^verbatim>\<open>void validate() const\<close>: throws when the code or the title is empty.\<close>

definition validate :: "Course \<Rightarrow> error + unit" where
  "validate c = (if code c = [] \<or> title c = [] then Inl InvalidCourseData else Inr ())"

text \<open>\<^verbatim>\<open>Course(string c, string t, vector<string> p)\<close>: the members are initialised from
  the arguments, then \<^verbatim>\<open>validate()\<close> runs; when it throws no object comes to exist.\<close>

definition Course_ctor :: "string \<Rightarrow> string \<Rightarrow> string list \<Rightarrow> error + Course" where
  "Course_ctor c t p =
     (let this = \<lparr>code = c, title = t, prerequisites = p\<rparr>
      in case validate this of Inl e \<Rightarrow> Inl e | Inr _ \<Rightarrow> Inr this)"

subsection \<open>toUpper (the same text in E1, E2 and E3)\<close>

text \<open>
  \<^verbatim>\<open>transform(..., ::toupper)\<close> maps every byte of the string through C's
  \<^verbatim>\<open>toupper\<close>. The program never calls \<^verbatim>\<open>setlocale\<close>, so the "C" locale applies: the
  bytes \<^verbatim>\<open>'a'\<close>..\<^verbatim>\<open>'z'\<close> (97..122) move down by 32 and every other byte is returned
  as it is (also a byte of 128 or more, which a signed \<^verbatim>\<open>char\<close> passes as a negative
  \<^verbatim>\<open>int\<close>; the C libraries in use return it unchanged).
\<close>

definition toupper :: "char \<Rightarrow> char" where
  "toupper ch =
     (let n = (of_char ch :: nat)
      in if 97 \<le> n \<and> n \<le> 122 then char_of (n - 32) else ch)"

definition toUpper :: "string \<Rightarrow> string" where
  "toUpper str = map toupper str"

subsection \<open>The hash function (E2 lines 114-120, E3 lines 111-115)\<close>

text \<open>
  \<^verbatim>\<open>hashVal * 31 + ch\<close> is computed in \<^verbatim>\<open>unsigned int\<close> (32 bits): \<^verbatim>\<open>ch\<close>, a
  \<^verbatim>\<open>char\<close>, is first promoted to \<^verbatim>\<open>int\<close> and then converted to \<^verbatim>\<open>unsigned int\<close>,
  that is reduced modulo \<open>2^32\<close>. Whether \<^verbatim>\<open>char\<close> is signed is left to the platform
  by C++ (signed on x86, unsigned on ARM Linux), so the model takes it as the parameter
  \<open>schar\<close>: on a signed-char platform a byte of 128 or more is the negative \<^verbatim>\<open>int\<close>
  \<open>byte - 256\<close>. Bytes below 128 have the same value either way.
\<close>

definition HASH_TABLE_SIZE :: nat where
  "HASH_TABLE_SIZE = 17"

definition char_value :: "bool \<Rightarrow> char \<Rightarrow> int" where
  "char_value schar ch =
     (if schar \<and> 128 \<le> (of_char ch :: int) then of_char ch - 256 else of_char ch)"

definition char_to_uint :: "bool \<Rightarrow> char \<Rightarrow> 32 word" where
  "char_to_uint schar ch = word_of_int (char_value schar ch)"

fun hash_loop :: "bool \<Rightarrow> 32 word \<Rightarrow> string \<Rightarrow> 32 word" where
  "hash_loop schar hashVal [] = hashVal"
| "hash_loop schar hashVal (ch # key) = hash_loop schar (hashVal * 31 + char_to_uint schar ch) key"

definition hash :: "bool \<Rightarrow> string \<Rightarrow> nat" where
  "hash schar key = unat (hash_loop schar 0 key mod of_nat HASH_TABLE_SIZE)"


text \<open>
  The same hash in the words of the specification, for comparison with the code: the
  accumulation \<open>h = h*31 + code(c)\<close> with the wrap-around modulo \<open>2^32\<close> written out on
  unbounded integers, and the base-31 polynomial it accumulates,
  \<open>code(c\<^sub>0) * 31^(n-1) + ... + code(c\<^sub>n\<^sub>-\<^sub>1) * 31^0\<close>.
\<close>

fun spec_rolling :: "(char \<Rightarrow> int) \<Rightarrow> int \<Rightarrow> string \<Rightarrow> int" where
  "spec_rolling cd h [] = h"
| "spec_rolling cd h (c # cs) = spec_rolling cd ((h * 31 + cd c) mod 2 ^ 32) cs"

definition spec_poly31 :: "(char \<Rightarrow> int) \<Rightarrow> string \<Rightarrow> int" where
  "spec_poly31 cd s = (\<Sum>i<length s. cd (s ! i) * 31 ^ (length s - Suc i))"

subsection \<open>parseCourse (the same text in E1 lines 94-111 and E2 lines 134-150)\<close>

text \<open>
  A \<^verbatim>\<open>stringstream\<close> is modelled by the characters not yet read.
  \<^verbatim>\<open>getline(ss, field, ',')\<close> fails (the stream converts to \<^verbatim>\<open>false\<close>) exactly when
  nothing is left to read: either the end was reached by the previous read, or the
  previous read consumed a final comma and this one extracts no character. Otherwise it
  reads up to the next comma, which it consumes and does not store, or to the end.
\<close>

fun read_field :: "string \<Rightarrow> string \<times> string" where
  "read_field [] = ([], [])"
| "read_field (ch # ss) =
     (if ch = CHR '','' then ([], ss)
      else case read_field ss of (field, ss') \<Rightarrow> (ch # field, ss'))"

definition getline_comma :: "string \<Rightarrow> (string \<times> string) option" where
  "getline_comma ss = (if ss = [] then None else Some (read_field ss))"

text \<open>\<^verbatim>\<open>while (getline(ss, prereq, ',')) if (!prereq.empty()) prereqs.push_back(prereq);\<close>
  (E3 runs the same loop over the third column of a row, lines 185-187.)\<close>

function read_prereqs :: "string \<Rightarrow> string list" where
  "read_prereqs ss =
     (case getline_comma ss of
        None \<Rightarrow> []
      | Some (prereq, ss') \<Rightarrow>
          if prereq \<noteq> [] then prereq # read_prereqs ss' else read_prereqs ss')"
  by pat_completeness auto
termination
proof (relation "measure length")
  show "wf (measure length)" by simp
next
  have len: "length (snd (read_field s)) \<le> length s" for s
    by (induction s) (auto split: prod.splits)
  fix ss x2 x y
  assume "getline_comma ss = Some x2" "(x, y) = x2" "x \<noteq> []"
  then show "(y, ss) \<in> measure length"
    using len [of "tl ss"]
    by (cases ss) (auto simp: getline_comma_def split: if_splits prod.splits)
next
  have len: "length (snd (read_field s)) \<le> length s" for s
    by (induction s) (auto split: prod.splits)
  fix ss x2 x y
  assume "getline_comma ss = Some x2" "(x, y) = x2" "\<not> x \<noteq> []"
  then show "(y, ss) \<in> measure length"
    using len [of "tl ss"]
    by (cases ss) (auto simp: getline_comma_def split: if_splits prod.splits)
qed

definition parseCourse :: "string \<Rightarrow> error + Course" where
  "parseCourse line =
     (case getline_comma line of
        None \<Rightarrow> Inl MalformedLine
      | Some (c, ss) \<Rightarrow>
          (case getline_comma ss of
             None \<Rightarrow> Inl MalformedLine
           | Some (t, ss') \<Rightarrow> Course_ctor c t (read_prereqs ss')))"


subsection \<open>E2 and E3: the table of chained buckets\<close>

text \<open>
  \<^verbatim>\<open>Node* table[HASH_TABLE_SIZE]\<close>: each bucket is the head of a singly linked chain of
  \<^verbatim>\<open>Node\<close>s, a node being a \<^verbatim>\<open>Course\<close> and the pointer to the next node. A chain is
  modelled by the list of its courses from the head on, the null pointer by the empty
  list, and the array by the list of its 17 chains. No node is ever shared between two
  chains, so nothing depends on the addresses.
\<close>

record HashTable =
  table :: "Course list list"
  courseOrder :: "string list"
  dataLoaded :: bool

text \<open>\<^verbatim>\<open>HashTable()\<close>: every bucket is set to \<^verbatim>\<open>nullptr\<close>; \<^verbatim>\<open>courseOrder\<close> starts empty
  and \<^verbatim>\<open>dataLoaded\<close> has the initialiser \<^verbatim>\<open>false\<close>.\<close>

definition HashTable_ctor :: HashTable where
  "HashTable_ctor =
     \<lparr>table = replicate HASH_TABLE_SIZE [], courseOrder = [], dataLoaded = False\<rparr>"

text \<open>The array has \<^verbatim>\<open>HASH_TABLE_SIZE\<close> entries in every state of the program.\<close>

definition table_ok :: "HashTable \<Rightarrow> bool" where
  "table_ok t = (length (table t) = HASH_TABLE_SIZE)"

text \<open>\<^verbatim>\<open>insert\<close> (E2 lines 164-184, E3 lines 202-215). The walk
  \<^verbatim>\<open>while (curr->next != nullptr) curr = curr->next; curr->next = newNode;\<close> is
  \<open>chain_append\<close>; an empty bucket takes the new node as its head.\<close>

fun chain_append :: "Course list \<Rightarrow> Course \<Rightarrow> Course list" where
  "chain_append [] newNode = [newNode]"
| "chain_append (nd # chain) newNode = nd # chain_append chain newNode"

definition insert_ht :: "bool \<Rightarrow> Course \<Rightarrow> HashTable \<Rightarrow> HashTable" where
  "insert_ht schar course t =
     (let key = toUpper (code course);
          index = hash schar key
      in t\<lparr>table := (table t)[index := chain_append (table t ! index) course],
            courseOrder := courseOrder t @ [key]\<rparr>)"

text \<open>\<^verbatim>\<open>getCourse\<close> (E2 lines 223-239, E3 lines 218-229): the walk down the chain of
  one bucket is \<open>chain_find\<close>.\<close>

fun chain_find :: "string \<Rightarrow> Course list \<Rightarrow> error + Course" where
  "chain_find key [] = Inl CourseNotFound"
| "chain_find key (nd # chain) =
     (if toUpper (code nd) = key then Inr nd else chain_find key chain)"

definition getCourse :: "bool \<Rightarrow> string \<Rightarrow> HashTable \<Rightarrow> error + Course" where
  "getCourse schar c t =
     (if \<not> dataLoaded t then Inl NoDataLoaded
      else let key = toUpper c;
               index = hash schar key
           in chain_find key (table t ! index))"

text \<open>
  \<^verbatim>\<open>getSortedCourseCodes\<close> (E2 lines 244-251, E3 lines 232-236) is not \<^verbatim>\<open>const\<close>: it
  sorts the member \<^verbatim>\<open>courseOrder\<close> itself and returns a copy of it, so the model returns
  the new state too. \<^verbatim>\<open>std::sort\<close> orders \<^verbatim>\<open>std::string\<close>s by \<^verbatim>\<open>operator<\<close>, the
  lexicographic order on the bytes read as unsigned values, which is the order of
  \<open>string\<close> here; equal strings cannot be told apart, so the sorted sequence is
  determined and \<open>sort\<close> computes it.
\<close>

definition getSortedCourseCodes :: "HashTable \<Rightarrow> (error + string list) \<times> HashTable" where
  "getSortedCourseCodes t =
     (if \<not> dataLoaded t then (Inl NoDataLoaded, t)
      else let t' = t\<lparr>courseOrder := sort (courseOrder t)\<rparr>
           in (Inr (courseOrder t'), t'))"

text \<open>
  \<^verbatim>\<open>loadData\<close> of E2 (lines 188-218). The argument \<open>file\<close> is what
  \<^verbatim>\<open>ifstream file(filename)\<close> gives: \<open>None\<close> when \<^verbatim>\<open>is_open()\<close> is false, else the lines
  that \<^verbatim>\<open>getline(file, line)\<close> reads until it fails. A throwing load leaves the object
  as it is at the \<^verbatim>\<open>throw\<close>, so the model returns the error together with that state.
  \<open>lineNum\<close> is an \<^verbatim>\<open>int\<close> in the source; it counts lines and is a \<open>nat\<close> here.
\<close>

fun load_lines :: "bool \<Rightarrow> nat \<Rightarrow> string list \<Rightarrow> HashTable \<Rightarrow> error option \<times> HashTable" where
  "load_lines schar lineNum [] t = (None, t)"
| "load_lines schar lineNum (line # rest) t =
     (case parseCourse line of
        Inl e \<Rightarrow> (Some (ErrorOnLine (Suc lineNum) e), t)
      | Inr course \<Rightarrow> load_lines schar (Suc lineNum) rest (insert_ht schar course t))"

definition loadData ::
    "bool \<Rightarrow> string \<Rightarrow> string list option \<Rightarrow> HashTable \<Rightarrow> error option \<times> HashTable" where
  "loadData schar filename file t =
     (case file of
        None \<Rightarrow> (Some (CouldNotOpenFile filename), t)
      | Some lines \<Rightarrow>
          (case load_lines schar 0 lines
                  (t\<lparr>courseOrder := [], table := map (\<lambda>chain. []) (table t)\<rparr>) of
             (Some e, t') \<Rightarrow> (Some e, t')
           | (None, t') \<Rightarrow> (None, t'\<lparr>dataLoaded := True\<rparr>)))"

subsection \<open>E3: clearTable and the load from SQLite\<close>

text \<open>\<^verbatim>\<open>clearTable\<close> (E3 lines 144-154): every chain is walked and its nodes deleted,
  then the bucket is set to \<^verbatim>\<open>nullptr\<close>. It assigns to no other member.\<close>

fun delete_chain :: "Course list \<Rightarrow> Course list" where
  "delete_chain [] = []"
| "delete_chain (nd # chain) = delete_chain chain"

definition clearTable :: "HashTable \<Rightarrow> HashTable" where
  "clearTable t = t\<lparr>table := map delete_chain (table t)\<rparr>"

text \<open>
  \<^verbatim>\<open>loadData\<close> of E3 (lines 157-199). The database is modelled by what the three
  SQLite calls give: \<^verbatim>\<open>sqlite3_open\<close> fails, or \<^verbatim>\<open>sqlite3_prepare_v2\<close> fails, or the
  \<^verbatim>\<open>sqlite3_step\<close> loop yields rows of three text columns (taken to be non-null). The
  \<^verbatim>\<open>Course\<close> constructor may throw inside the loop; nothing catches it there.
  \<open>row_course\<close> is the record that the loop body builds from one row (lines 179-190).
\<close>

datatype database =
    OpenFails
  | PrepareFails
  | Rows "(string \<times> string \<times> string) list"

definition row_course :: "string \<times> string \<times> string \<Rightarrow> error + Course" where
  "row_course row =
     (case row of (c, ti, pStr) \<Rightarrow> Course_ctor c ti (read_prereqs pStr))"

fun load_rows ::
    "bool \<Rightarrow> (string \<times> string \<times> string) list \<Rightarrow> HashTable \<Rightarrow> error option \<times> HashTable" where
  "load_rows schar [] t = (None, t)"
| "load_rows schar (row # rest) t =
     (case row_course row of
        Inl e \<Rightarrow> (Some e, t)
      | Inr course \<Rightarrow> load_rows schar rest (insert_ht schar course t))"

definition loadData_e3 :: "bool \<Rightarrow> database \<Rightarrow> HashTable \<Rightarrow> error option \<times> HashTable" where
  "loadData_e3 schar db t =
     (case db of
        OpenFails \<Rightarrow> (Some CouldNotOpenDatabase, t)
      | PrepareFails \<Rightarrow> (Some FailedToQuery, clearTable (t\<lparr>courseOrder := []\<rparr>))
      | Rows rows \<Rightarrow>
          (case load_rows schar rows (clearTable (t\<lparr>courseOrder := []\<rparr>)) of
             (Some e, t') \<Rightarrow> (Some e, t')
           | (None, t') \<Rightarrow> (None, t'\<lparr>dataLoaded := True\<rparr>)))"

subsection \<open>E1: the table on std::unordered_map\<close>

record HashTable_e1 =
  courseMap_e1 :: "string \<rightharpoonup> Course"
  courseOrder_e1 :: "string list"
  dataLoaded_e1 :: bool

definition HashTable_e1_ctor :: HashTable_e1 where
  "HashTable_e1_ctor =
     \<lparr>courseMap_e1 = Map.empty, courseOrder_e1 = [], dataLoaded_e1 = False\<rparr>"

text \<open>The three statements of the \<^verbatim>\<open>try\<close> block after the parse (E1 lines 140-142):
  \<^verbatim>\<open>courseMap[upperCode] = course\<close> assigns to the entry of the key, creating it when
  it is absent and replacing its value when it is present.\<close>

definition store_e1 :: "Course \<Rightarrow> HashTable_e1 \<Rightarrow> HashTable_e1" where
  "store_e1 course t =
     (let upperCode = toUpper (code course)
      in t\<lparr>courseMap_e1 := (courseMap_e1 t)(upperCode \<mapsto> course),
            courseOrder_e1 := courseOrder_e1 t @ [upperCode]\<rparr>)"

fun load_lines_e1 :: "nat \<Rightarrow> string list \<Rightarrow> HashTable_e1 \<Rightarrow> error option \<times> HashTable_e1" where
  "load_lines_e1 lineNum [] t = (None, t)"
| "load_lines_e1 lineNum (line # rest) t =
     (case parseCourse line of
        Inl e \<Rightarrow> (Some (ErrorOnLine (Suc lineNum) e), t)
      | Inr course \<Rightarrow> load_lines_e1 (Suc lineNum) rest (store_e1 course t))"

text \<open>\<^verbatim>\<open>loadData\<close> of E1 (lines 117-152).\<close>

definition loadData_e1 ::
    "string \<Rightarrow> string list option \<Rightarrow> HashTable_e1 \<Rightarrow> error option \<times> HashTable_e1" where
  "loadData_e1 filename file t =
     (case file of
        None \<Rightarrow> (Some (CouldNotOpenFile filename), t)
      | Some lines \<Rightarrow>
          (case load_lines_e1 0 lines (t\<lparr>courseMap_e1 := Map.empty, courseOrder_e1 := []\<rparr>) of
             (Some e, t') \<Rightarrow> (Some e, t')
           | (None, t') \<Rightarrow> (None, t'\<lparr>dataLoaded_e1 := True\<rparr>)))"

text \<open>\<^verbatim>\<open>getCourse\<close> of E1 (lines 157-170).\<close>

definition getCourse_e1 :: "string \<Rightarrow> HashTable_e1 \<Rightarrow> error + Course" where
  "getCourse_e1 c t =
     (if \<not> dataLoaded_e1 t then Inl NoDataLoaded
      else let upperCode = toUpper c
           in case courseMap_e1 t upperCode of
                None \<Rightarrow> Inl CourseNotFound
              | Some course \<Rightarrow> Inr course)"

text \<open>\<^verbatim>\<open>getSortedCourseCodes\<close> of E1 (lines 174-178).\<close>

definition getSortedCourseCodes_e1 :: "HashTable_e1 \<Rightarrow> (error + string list) \<times> HashTable_e1" where
  "getSortedCourseCodes_e1 t =
     (if \<not> dataLoaded_e1 t then (Inl NoDataLoaded, t)
      else let t' = t\<lparr>courseOrder_e1 := sort (courseOrder_e1 t)\<rparr>
           in (Inr (courseOrder_e1 t'), t'))"

subsection \<open>Auxiliary notions for the proofs\<close>

text \<open>The records of a list inserted one after the other, as the loops of the loaders
  do, and the state right after the reset with which \<^verbatim>\<open>loadData\<close> of E2 begins
  (lines 195-198).\<close>

definition insert_all :: "bool \<Rightarrow> Course list \<Rightarrow> HashTable \<Rightarrow> HashTable" where
  "insert_all schar rs t = fold (insert_ht schar) rs t"

definition cleared :: "HashTable \<Rightarrow> HashTable" where
  "cleared t = t\<lparr>courseOrder := [], table := map (\<lambda>chain. []) (table t)\<rparr>"

definition store_all_e1 :: "Course list \<Rightarrow> HashTable_e1 \<Rightarrow> HashTable_e1" where
  "store_all_e1 rs t = fold store_e1 rs t"

definition cleared_e1 :: "HashTable_e1 \<Rightarrow> HashTable_e1" where
  "cleared_e1 t = t\<lparr>courseMap_e1 := Map.empty, courseOrder_e1 := []\<rparr>"

text \<open>The canonical code of a record, and all records held in the buckets of a table.\<close>

definition canon :: "Course \<Rightarrow> string" where
  "canon r = toUpper (code r)"

definition stored :: "HashTable \<Rightarrow> Course list" where
  "stored t = concat (table t)"

text \<open>The first and the last record of a sequence that carry a canonical code, and the
  result of a lookup that finds a record or none.\<close>

definition first_with :: "string \<Rightarrow> Course list \<Rightarrow> Course option" where
  "first_with k rs = find (\<lambda>r. canon r = k) rs"

definition last_with :: "string \<Rightarrow> Course list \<Rightarrow> Course option" where
  "last_with k rs = find (\<lambda>r. canon r = k) (rev rs)"

definition lookup_result :: "Course option \<Rightarrow> error + Course" where
  "lookup_result found = (case found of None \<Rightarrow> Inl CourseNotFound | Some r \<Rightarrow> Inr r)"

section \<open>Properties of the hash function\<close>

lemma uint_hash_step:
  "uint (h * 31 + char_to_uint schar c) = (uint h * 31 + char_value schar c) mod 2 ^ 32"
  by (simp add: char_to_uint_def uint_word_ariths uint_word_of_int mod_simps)

lemma uint_hash_loop:
  "uint (hash_loop schar h s) = spec_rolling (char_value schar) (uint h) s"
  by (induction s arbitrary: h) (simp_all add: uint_hash_step)

lemma spec_poly31_Cons: "spec_poly31 cd (c # s) = cd c * 31 ^ length s + spec_poly31 cd s"
  by (simp add: spec_poly31_def sum.lessThan_Suc_shift del: sum.lessThan_Suc)

lemma spec_rolling_poly:
  "spec_rolling cd h s mod 2 ^ 32 = (h * 31 ^ length s + spec_poly31 cd s) mod 2 ^ 32"
proof (induction s arbitrary: h)
  case Nil
  show ?case by (simp add: spec_poly31_def)
next
  case (Cons c s)
  have "spec_rolling cd h (c # s) mod 2 ^ 32
      = spec_rolling cd ((h * 31 + cd c) mod 2 ^ 32) s mod 2 ^ 32"
    by simp
  also have "\<dots> = ((h * 31 + cd c) mod 2 ^ 32 * 31 ^ length s + spec_poly31 cd s) mod 2 ^ 32"
    by (rule Cons.IH)
  also have "\<dots> = ((h * 31 + cd c) * 31 ^ length s + spec_poly31 cd s) mod 2 ^ 32"
    by (metis mod_add_left_eq mod_mult_left_eq)
  also have "(h * 31 + cd c) * 31 ^ length s + spec_poly31 cd s
      = h * 31 ^ length (c # s) + spec_poly31 cd (c # s)"
    by (simp add: spec_poly31_Cons algebra_simps)
  finally show ?case .
qed

lemma spec_rolling_range:
  "0 \<le> h \<Longrightarrow> h < 2 ^ 32 \<Longrightarrow> 0 \<le> spec_rolling cd h s \<and> spec_rolling cd h s < 2 ^ 32"
  by (induction s arbitrary: h) simp_all

lemma hash_rolling:
  "int (hash schar s) = spec_rolling (char_value schar) 0 s mod int HASH_TABLE_SIZE"
  by (simp add: hash_def HASH_TABLE_SIZE_def uint_mod_distrib uint_hash_loop)

lemma hash_poly:
  "int (hash schar s) = spec_poly31 (char_value schar) s mod 2 ^ 32 mod int HASH_TABLE_SIZE"
proof -
  have "spec_rolling (char_value schar) 0 s = spec_rolling (char_value schar) 0 s mod 2 ^ 32"
    using spec_rolling_range [of 0 "char_value schar" s] by simp
  also have "\<dots> = spec_poly31 (char_value schar) s mod 2 ^ 32"
    using spec_rolling_poly [of "char_value schar" 0 s] by simp
  finally show ?thesis by (simp add: hash_rolling)
qed

lemma hash_less: "hash schar s < HASH_TABLE_SIZE"
proof -
  have "int (hash schar s) < int HASH_TABLE_SIZE"
    unfolding hash_rolling by (simp add: HASH_TABLE_SIZE_def)
  then show ?thesis by simp
qed

lemma toupper_ascii: "(of_char c :: nat) < 128 \<Longrightarrow> (of_char (toupper c) :: nat) < 128"
  by (auto simp: toupper_def Let_def)

lemma char_value_ascii: "(of_char c :: nat) < 128 \<Longrightarrow> char_value schar c = of_char c"
proof -
  assume "(of_char c :: nat) < 128"
  then have "int (of_char c) < 128" by simp
  then have "(of_char c :: int) < 128" by (simp add: of_nat_of_char)
  then show ?thesis by (simp add: char_value_def)
qed

lemma spec_poly31_cong: "(\<And>c. c \<in> set s \<Longrightarrow> f c = g c) \<Longrightarrow> spec_poly31 f s = spec_poly31 g s"
  by (simp add: spec_poly31_def)

lemma spec_rolling_cong:
  "(\<And>c. c \<in> set s \<Longrightarrow> f c = g c) \<Longrightarrow> spec_rolling f h s = spec_rolling g h s"
  by (induction s arbitrary: h) simp_all

text \<open>
  Claim C5, as amended. For every key, the bucket index that \<^verbatim>\<open>insert\<close> and
  \<^verbatim>\<open>getCourse\<close> compute, \<open>hash (toUpper key)\<close>, is the base-31 polynomial rolling hash of
  the upper-cased key: the accumulation \<open>h = h*31 + v(c)\<close> wrapped modulo \<open>2^32\<close>, equally
  the polynomial \<open>\<Sum> v(c\<^sub>i) * 31^(n-1-i)\<close> modulo \<open>2^32\<close>, reduced modulo the bucket count
  17; it is always a valid index and never an error. Here \<open>v(c)\<close> is the value the
  platform gives the \<^verbatim>\<open>char\<close>: the character code where \<^verbatim>\<open>char\<close> is unsigned, and the
  code minus 256 for codes of 128 and more where \<^verbatim>\<open>char\<close> is signed. For keys of 7-bit
  characters, on every platform, it is the polynomial over the character codes.
\<close>
theorem hash_is_polynomial_rolling_hash:
  "int (hash schar (toUpper key))
     = spec_rolling (char_value schar) 0 (toUpper key) mod int HASH_TABLE_SIZE
   \<and> int (hash schar (toUpper key))
     = spec_poly31 (char_value schar) (toUpper key) mod 2 ^ 32 mod int HASH_TABLE_SIZE
   \<and> hash schar (toUpper key) < HASH_TABLE_SIZE
   \<and> HASH_TABLE_SIZE = 17
   \<and> char_value False = of_char
   \<and> char_value True c = (if 128 \<le> (of_char c :: int) then of_char c - 256 else of_char c)
   \<and> int (hash False (toUpper key))
     = spec_poly31 of_char (toUpper key) mod 2 ^ 32 mod int HASH_TABLE_SIZE
   \<and> ((\<forall>c \<in> set key. (of_char c :: nat) < 128) \<longrightarrow>
        int (hash schar (toUpper key))
          = spec_poly31 of_char (toUpper key) mod 2 ^ 32 mod int HASH_TABLE_SIZE
      \<and> int (hash schar (toUpper key))
          = spec_rolling of_char 0 (toUpper key) mod int HASH_TABLE_SIZE)"
proof -
  have ascii: "char_value schar c = of_char c" if "c \<in> set (toUpper key)"
    and "\<forall>c \<in> set key. (of_char c :: nat) < 128" for c
    using that by (auto simp: toUpper_def char_value_ascii toupper_ascii)
  have unsigned: "char_value False = of_char"
    by (rule ext) (simp add: char_value_def)
  have signed: "char_value True c
      = (if 128 \<le> (of_char c :: int) then of_char c - 256 else of_char c)"
    by (simp add: char_value_def)
  have plainF: "int (hash False (toUpper key))
      = spec_poly31 of_char (toUpper key) mod 2 ^ 32 mod int HASH_TABLE_SIZE"
    using hash_poly [of False "toUpper key"] by (simp only: unsigned)
  have plain: "int (hash schar (toUpper key))
      = spec_poly31 of_char (toUpper key) mod 2 ^ 32 mod int HASH_TABLE_SIZE"
    if a: "\<forall>c \<in> set key. (of_char c :: nat) < 128"
  proof -
    have "spec_poly31 (char_value schar) (toUpper key) = spec_poly31 of_char (toUpper key)"
      using ascii a by (intro spec_poly31_cong) blast
    then show ?thesis
      using hash_poly [of schar "toUpper key"] by simp
  qed
  have roll: "int (hash schar (toUpper key))
      = spec_rolling of_char 0 (toUpper key) mod int HASH_TABLE_SIZE"
    if a: "\<forall>c \<in> set key. (of_char c :: nat) < 128"
  proof -
    have "spec_rolling (char_value schar) 0 (toUpper key) = spec_rolling of_char 0 (toUpper key)"
      using ascii a by (intro spec_rolling_cong) blast
    then show ?thesis
      using hash_rolling [of schar "toUpper key"] by simp
  qed
  from hash_rolling [of schar "toUpper key"] hash_poly [of schar "toUpper key"]
    hash_less [of schar "toUpper key"] HASH_TABLE_SIZE_def unsigned signed plainF plain roll
  show ?thesis by blast
qed

theorem hash_is_polynomial_rolling_hash_witness:
  "list_all (\<lambda>c. (of_char c :: nat) < 128) ''compsci-4990''
   \<and> int (hash True (toUpper ''compsci-4990''))
       = spec_poly31 of_char (toUpper ''compsci-4990'') mod 2 ^ 32 mod int HASH_TABLE_SIZE
   \<and> hash True (toUpper ''compsci-4990'') = 10
   \<and> spec_poly31 of_char (toUpper ''compsci-4990'') = 1769225014062783935
   \<and> (2 :: int) ^ 32 \<le> 1769225014062783935"
proof -
  have h: "\<forall>c \<in> set ''compsci-4990''. (of_char c :: nat) < 128"
    by simp
  have v: "hash True (toUpper ''compsci-4990'') = 10"
    by code_simp
  have p: "spec_poly31 of_char (toUpper ''compsci-4990'') = 1769225014062783935"
    by code_simp
  have w: "(2 :: int) ^ 32 \<le> 1769225014062783935"
    by simp
  from h v p w hash_is_polynomial_rolling_hash [of True "''compsci-4990''"] show ?thesis
    unfolding list_all_iff by blast
qed

text \<open>
  The claim as written, with the plain character codes for every key, fails where
  \<^verbatim>\<open>char\<close> is signed (x86) on a key with a byte of 128 or more: for the seven bytes
  \<^verbatim>\<open>C3 89 43 4F 31 30 31\<close> (an accented E in UTF-8, then \<^verbatim>\<open>CO101\<close>) the code computes
  bucket 2, the polynomial over the character codes gives 8.
\<close>
theorem hash_signed_char_high_byte:
  "toUpper [CHR 0xC3, CHR 0x89, CHR ''C'', CHR ''O'', CHR ''1'', CHR ''0'', CHR ''1'']
     = [CHR 0xC3, CHR 0x89, CHR ''C'', CHR ''O'', CHR ''1'', CHR ''0'', CHR ''1'']
   \<and> hash True (toUpper [CHR 0xC3, CHR 0x89, CHR ''C'', CHR ''O'', CHR ''1'', CHR ''0'', CHR ''1''])
     = 2
   \<and> spec_poly31 of_char
        (toUpper [CHR 0xC3, CHR 0x89, CHR ''C'', CHR ''O'', CHR ''1'', CHR ''0'', CHR ''1''])
        mod 2 ^ 32 mod int HASH_TABLE_SIZE
     = 8
   \<and> spec_rolling of_char 0
        (toUpper [CHR 0xC3, CHR 0x89, CHR ''C'', CHR ''O'', CHR ''1'', CHR ''0'', CHR ''1''])
        mod int HASH_TABLE_SIZE
     = 8
   \<and> int (hash True
        (toUpper [CHR 0xC3, CHR 0x89, CHR ''C'', CHR ''O'', CHR ''1'', CHR ''0'', CHR ''1'']))
     \<noteq> spec_poly31 of_char
        (toUpper [CHR 0xC3, CHR 0x89, CHR ''C'', CHR ''O'', CHR ''1'', CHR ''0'', CHR ''1''])
        mod 2 ^ 32 mod int HASH_TABLE_SIZE"
proof -
  have a: "toUpper [CHR 0xC3, CHR 0x89, CHR ''C'', CHR ''O'', CHR ''1'', CHR ''0'', CHR ''1'']
     = [CHR 0xC3, CHR 0x89, CHR ''C'', CHR ''O'', CHR ''1'', CHR ''0'', CHR ''1'']"
    by code_simp
  have b: "hash True [CHR 0xC3, CHR 0x89, CHR ''C'', CHR ''O'', CHR ''1'', CHR ''0'', CHR ''1''] = 2"
    by code_simp
  have c: "spec_poly31 of_char
        [CHR 0xC3, CHR 0x89, CHR ''C'', CHR ''O'', CHR ''1'', CHR ''0'', CHR ''1'']
        mod 2 ^ 32 mod int HASH_TABLE_SIZE = 8"
    by code_simp
  have d: "spec_rolling of_char 0
        [CHR 0xC3, CHR 0x89, CHR ''C'', CHR ''O'', CHR ''1'', CHR ''0'', CHR ''1'']
        mod int HASH_TABLE_SIZE = 8"
    by code_simp
  show ?thesis
    unfolding a b c d by simp
qed

section \<open>Properties of the chained table\<close>

lemma chain_append_eq: "chain_append chain c = chain @ [c]"
  by (induction chain) simp_all

lemma delete_chain_eq: "delete_chain chain = []"
  by (induction chain) simp_all

lemma insert_ht_simps:
  "dataLoaded (insert_ht schar r t) = dataLoaded t"
  "courseOrder (insert_ht schar r t) = courseOrder t @ [toUpper (code r)]"
  "length (table (insert_ht schar r t)) = length (table t)"
  by (simp_all add: insert_ht_def Let_def)

lemma insert_ht_bucket:
  "table_ok t \<Longrightarrow> i < HASH_TABLE_SIZE \<Longrightarrow>
   table (insert_ht schar r t) ! i
     = (if hash schar (toUpper (code r)) = i then table t ! i @ [r] else table t ! i)"
  by (simp add: insert_ht_def Let_def table_ok_def chain_append_eq)

lemma insert_ht_ok: "table_ok t \<Longrightarrow> table_ok (insert_ht schar r t)"
  by (simp add: table_ok_def insert_ht_simps)

lemma insert_all_simps:
  "dataLoaded (insert_all schar rs t) = dataLoaded t"
  "courseOrder (insert_all schar rs t) = courseOrder t @ map (\<lambda>r. toUpper (code r)) rs"
  "length (table (insert_all schar rs t)) = length (table t)"
  unfolding insert_all_def
  by (induction rs arbitrary: t) (simp_all add: insert_ht_simps)

lemma insert_all_ok: "table_ok t \<Longrightarrow> table_ok (insert_all schar rs t)"
  by (simp add: table_ok_def insert_all_simps)

lemma insert_all_bucket:
  "table_ok t \<Longrightarrow> i < HASH_TABLE_SIZE \<Longrightarrow>
   table (insert_all schar rs t) ! i
     = table t ! i @ filter (\<lambda>r. hash schar (toUpper (code r)) = i) rs"
  unfolding insert_all_def
  by (induction rs arbitrary: t) (simp_all add: insert_ht_bucket insert_ht_ok)

lemma load_lines_good:
  "map parseCourse lines = map Inr rs \<Longrightarrow>
   load_lines schar n lines t = (None, insert_all schar rs t)"
  unfolding insert_all_def
  by (induction lines arbitrary: rs n t) (auto simp: )

lemma load_lines_bad:
  "map parseCourse good = map Inr rs \<Longrightarrow> parseCourse bad = Inl e \<Longrightarrow>
   load_lines schar n (good @ bad # rest) t
     = (Some (ErrorOnLine (n + length good + 1) e), insert_all schar rs t)"
  unfolding insert_all_def
  by (induction good arbitrary: rs n t) (auto simp: )

lemma chain_find_absent:
  "key \<notin> (\<lambda>r. toUpper (code r)) ` set chain \<Longrightarrow> chain_find key chain = Inl CourseNotFound"
  by (induction chain) auto

lemma chain_find_append:
  "chain_find key (xs @ ys) = (case chain_find key xs of Inr r \<Rightarrow> Inr r | Inl e \<Rightarrow> chain_find key ys)"
  by (induction xs) simp_all

lemma chain_find_error: "chain_find key chain = Inl e \<Longrightarrow> e = CourseNotFound"
  by (induction chain) (simp_all split: if_splits)

lemma cleared_simps:
  "dataLoaded (cleared t) = dataLoaded t" "courseOrder (cleared t) = []"
  "table_ok t \<Longrightarrow> table_ok (cleared t)"
  "i < length (table t) \<Longrightarrow> table (cleared t) ! i = []"
  by (simp_all add: cleared_def table_ok_def)

lemma loadData_good:
  assumes "map parseCourse lines = map Inr rs"
  shows "loadData schar fn (Some lines) t
      = (None, (insert_all schar rs (cleared t))\<lparr>dataLoaded := True\<rparr>)"
proof -
  have "load_lines schar 0 lines (cleared t) = (None, insert_all schar rs (cleared t))"
    using assms by (rule load_lines_good)
  then show ?thesis
    by (simp add: loadData_def cleared_def)
qed

lemma loadData_bad:
  assumes "map parseCourse good = map Inr rs" and "parseCourse bad = Inl e"
  shows "loadData schar fn (Some (good @ bad # rest)) t
      = (Some (ErrorOnLine (length good + 1) e), insert_all schar rs (cleared t))"
proof -
  have "load_lines schar 0 (good @ bad # rest) (cleared t)
      = (Some (ErrorOnLine (0 + length good + 1) e), insert_all schar rs (cleared t))"
    using assms by (rule load_lines_bad)
  then show ?thesis
    by (simp add: loadData_def cleared_def)
qed

lemma bucket_after_load:
  assumes "table_ok t"
  shows "table (insert_all schar rs (cleared t)) ! hash schar key
      = filter (\<lambda>r. hash schar (toUpper (code r)) = hash schar key) rs"
proof -
  have i: "hash schar key < HASH_TABLE_SIZE"
    by (rule hash_less)
  have ok: "table_ok (cleared t)"
    using assms by (rule cleared_simps)
  have "table (cleared t) ! hash schar key = []"
    using assms i by (simp add: cleared_simps table_ok_def)
  then show ?thesis
    by (simp add: insert_all_bucket [OF ok i])
qed

lemma chain_find_distinct:
  "distinct (map (\<lambda>r. toUpper (code r)) rs) \<Longrightarrow> r \<in> set rs \<Longrightarrow> P r \<Longrightarrow>
   chain_find (toUpper (code r)) (filter P rs) = Inr r"
proof (induction rs)
  case Nil
  then show ?case by simp
next
  case (Cons x xs)
  show ?case
  proof (cases "r = x")
    case True
    with Cons.prems show ?thesis by simp
  next
    case False
    with Cons.prems have "r \<in> set xs" by simp
    with Cons.prems have "toUpper (code x) \<noteq> toUpper (code r)" by force
    with Cons \<open>r \<in> set xs\<close> show ?thesis by simp
  qed
qed


lemma canon_fun: "canon = (\<lambda>r. toUpper (code r))"
  by (rule ext) (simp add: canon_def)

lemma getCourse_loaded:
  "dataLoaded t \<Longrightarrow>
   getCourse schar c t = chain_find (toUpper c) (table t ! hash schar (toUpper c))"
  by (simp add: getCourse_def Let_def)

lemma getCourse_after_load:
  assumes ok: "table_ok t"
  shows "getCourse schar c ((insert_all schar rs (cleared t))\<lparr>dataLoaded := True\<rparr>)
      = chain_find (toUpper c)
          (filter (\<lambda>r. hash schar (toUpper (code r)) = hash schar (toUpper c)) rs)"
  using bucket_after_load [OF ok, of schar rs "toUpper c"]
  by (simp add: getCourse_def Let_def)

lemma getCourse_distinct:
  assumes ok: "table_ok t" and d: "distinct (map canon rs)" and r: "r \<in> set rs"
    and c: "toUpper c = canon r"
  shows "getCourse schar c ((insert_all schar rs (cleared t))\<lparr>dataLoaded := True\<rparr>) = Inr r"
proof -
  have d': "distinct (map (\<lambda>r. toUpper (code r)) rs)"
    using d by (simp add: canon_fun)
  have "chain_find (toUpper (code r))
          (filter (\<lambda>r'. hash schar (toUpper (code r')) = hash schar (toUpper (code r))) rs) = Inr r"
    using d' r by (rule chain_find_distinct) simp
  then show ?thesis
    using c by (simp add: getCourse_after_load [OF ok] canon_def)
qed

lemma sorted_codes_after_load:
  "fst (getSortedCourseCodes ((insert_all schar rs (cleared t))\<lparr>dataLoaded := True\<rparr>))
     = Inr (sort (map canon rs))"
  by (simp add: getSortedCourseCodes_def Let_def insert_all_simps cleared_simps canon_fun)

text \<open>
  Claim C7. For every record sequence \<open>r\<^sub>1, ..., r\<^sub>n\<close> with pairwise distinct canonical
  codes, after the load of that sequence the lookup of the code of \<open>r\<^sub>i\<close> returns \<open>r\<^sub>i\<close>
  for every \<open>i\<close> (under any spelling that upper-cases to the canonical code), and the
  sorted listing returns exactly the \<open>n\<close> canonical codes in strictly ascending order.
  The sequence is what \<^verbatim>\<open>loadData\<close> of E2 parses out of the lines of the file; the table
  before the load is arbitrary.
\<close>
theorem load_distinct_lookup_and_sorted_keys:
  assumes ok: "table_ok t"
    and parsed: "map parseCourse lines = map Inr rs"
    and d: "distinct (map canon rs)"
  shows "fst (loadData schar fn (Some lines) t) = None
    \<and> (\<forall>r \<in> set rs. \<forall>c. toUpper c = canon r \<longrightarrow>
          getCourse schar c (snd (loadData schar fn (Some lines) t)) = Inr r)
    \<and> (\<forall>r \<in> set rs. getCourse schar (code r) (snd (loadData schar fn (Some lines) t)) = Inr r)
    \<and> fst (getSortedCourseCodes (snd (loadData schar fn (Some lines) t)))
         = Inr (sort (map canon rs))
    \<and> sorted_wrt (<) (sort (map canon rs))
    \<and> length (sort (map canon rs)) = length rs
    \<and> set (sort (map canon rs)) = canon ` set rs"
proof -
  have l: "loadData schar fn (Some lines) t
      = (None, (insert_all schar rs (cleared t))\<lparr>dataLoaded := True\<rparr>)"
    using parsed by (rule loadData_good)
  have g: "getCourse schar c (snd (loadData schar fn (Some lines) t)) = Inr r"
    if "r \<in> set rs" "toUpper c = canon r" for r c
    using that by (simp add: l getCourse_distinct [OF ok d])
  have s: "sorted_wrt (<) (sort (map canon rs))"
    using d by (simp add: strict_sorted_iff)
  show ?thesis
    using g s by (simp add: l sorted_codes_after_load canon_def)
qed


theorem load_distinct_lookup_and_sorted_keys_witness:
  "table_ok HashTable_ctor
   \<and> map parseCourse [''CS101,Intro to CS'', ''CS201,Data Structures,CS101'']
       = map Inr [\<lparr>code = ''CS101'', title = ''Intro to CS'', prerequisites = []\<rparr>,
                  \<lparr>code = ''CS201'', title = ''Data Structures'', prerequisites = [''CS101'']\<rparr>]
   \<and> distinct (map canon [\<lparr>code = ''CS101'', title = ''Intro to CS'', prerequisites = []\<rparr>,
                  \<lparr>code = ''CS201'', title = ''Data Structures'', prerequisites = [''CS101'']\<rparr>])
   \<and> getCourse True ''cs201''
         (snd (loadData True ''Program_Input.csv''
                (Some [''CS101,Intro to CS'', ''CS201,Data Structures,CS101'']) HashTable_ctor))
       = Inr \<lparr>code = ''CS201'', title = ''Data Structures'', prerequisites = [''CS101'']\<rparr>
   \<and> fst (getSortedCourseCodes
         (snd (loadData True ''Program_Input.csv''
                (Some [''CS101,Intro to CS'', ''CS201,Data Structures,CS101'']) HashTable_ctor)))
       = Inr [''CS101'', ''CS201'']"
proof -
  let ?r1 = "\<lparr>code = ''CS101'', title = ''Intro to CS'', prerequisites = []\<rparr>"
  let ?r2 = "\<lparr>code = ''CS201'', title = ''Data Structures'', prerequisites = [''CS101'']\<rparr>"
  have h1: "table_ok HashTable_ctor"
    by (simp add: table_ok_def HashTable_ctor_def)
  have h2: "map parseCourse [''CS101,Intro to CS'', ''CS201,Data Structures,CS101'']
      = map Inr [?r1, ?r2]"
    by code_simp
  have c1: "canon ?r1 = ''CS101''" and c2: "canon ?r2 = ''CS201''"
    and c3: "toUpper ''cs201'' = ''CS201''"
    by code_simp+
  have h3: "distinct (map canon [?r1, ?r2])"
    by (simp add: c1 c2)
  have s: "sort (map canon [?r1, ?r2]) = [''CS101'', ''CS201'']"
    by (simp add: c1 c2)
  from load_distinct_lookup_and_sorted_keys [OF h1 h2 h3, of True "''Program_Input.csv''"]
  show ?thesis
    using h1 h2 h3 by (simp add: s c1 c2 c3)
qed

lemma bucket_subset_stored:
  "i < length (table t) \<Longrightarrow> set (table t ! i) \<subseteq> set (stored t)"
proof
  fix x
  assume "i < length (table t)" and "x \<in> set (table t ! i)"
  then have "table t ! i \<in> set (table t)" and "x \<in> set (table t ! i)"
    by simp_all
  then show "x \<in> set (stored t)"
    unfolding stored_def set_concat by blast
qed

lemma getCourse_absent:
  assumes "dataLoaded t" "table_ok t" "toUpper c \<notin> canon ` set (stored t)"
  shows "getCourse schar c t = Inl CourseNotFound"
proof -
  have "hash schar (toUpper c) < length (table t)"
    using assms(2) hash_less [of schar "toUpper c"] by (simp add: table_ok_def)
  then have "set (table t ! hash schar (toUpper c)) \<subseteq> set (stored t)"
    by (rule bucket_subset_stored)
  with assms(3) have "toUpper c \<notin> (\<lambda>r. toUpper (code r)) ` set (table t ! hash schar (toUpper c))"
    by (auto simp: canon_def)
  then show ?thesis
    using assms(1) by (simp add: getCourse_loaded chain_find_absent)
qed

lemma getCourse_absent_after_load:
  assumes ok: "table_ok t" and "toUpper c \<notin> canon ` set rs"
  shows "getCourse schar c ((insert_all schar rs (cleared t))\<lparr>dataLoaded := True\<rparr>)
      = Inl CourseNotFound"
proof -
  have "toUpper c \<notin> (\<lambda>r. toUpper (code r)) `
      set (filter (\<lambda>r. hash schar (toUpper (code r)) = hash schar (toUpper c)) rs)"
    using assms(2) by (auto simp: canon_def)
  then show ?thesis
    by (simp add: getCourse_after_load [OF ok] chain_find_absent)
qed

lemma getCourse_error: "getCourse schar c t = Inl e \<Longrightarrow> e = NoDataLoaded \<or> e = CourseNotFound"
  by (auto simp: getCourse_def Let_def split: if_splits dest: chain_find_error)

text \<open>
  Claim C8. The lookup raises one of two errors that can be told apart: on a table that
  is not loaded it fails with "No data loaded." (and so does the sorted listing, which
  changes nothing); on a loaded table, for a code whose canonical form is in no bucket
  (in particular one that the load never inserted), it fails with "Course not found.";
  its result depends on the loaded flag and on the target bucket only; and it raises no
  third error.
\<close>
theorem lookup_error_kinds:
  "(\<not> dataLoaded u \<longrightarrow>
       getCourse schar c u = Inl NoDataLoaded
     \<and> getSortedCourseCodes u = (Inl NoDataLoaded, u))
   \<and> (dataLoaded t \<and> table_ok t \<and> toUpper c \<notin> canon ` set (stored t) \<longrightarrow>
       getCourse schar c t = Inl CourseNotFound)
   \<and> (table_ok t \<and> map parseCourse lines = map Inr rs \<and> toUpper c \<notin> canon ` set rs \<longrightarrow>
       getCourse schar c (snd (loadData schar fn (Some lines) t)) = Inl CourseNotFound)
   \<and> (dataLoaded t' = dataLoaded t
       \<and> table t' ! hash schar (toUpper c) = table t ! hash schar (toUpper c) \<longrightarrow>
       getCourse schar c t' = getCourse schar c t)
   \<and> (\<forall>e. getCourse schar c t = Inl e \<longrightarrow> e = NoDataLoaded \<or> e = CourseNotFound)
   \<and> NoDataLoaded \<noteq> CourseNotFound"
proof -
  have a: "getCourse schar c (snd (loadData schar fn (Some lines) t)) = Inl CourseNotFound"
    if "table_ok t" "map parseCourse lines = map Inr rs" "toUpper c \<notin> canon ` set rs"
    using that by (simp add: loadData_good getCourse_absent_after_load)
  have b: "getCourse schar c t' = getCourse schar c t"
    if "dataLoaded t' = dataLoaded t"
      "table t' ! hash schar (toUpper c) = table t ! hash schar (toUpper c)"
    using that by (simp add: getCourse_def Let_def)
  have n: "\<not> dataLoaded u \<longrightarrow>
       getCourse schar c u = Inl NoDataLoaded
     \<and> getSortedCourseCodes u = (Inl NoDataLoaded, u)"
    by (simp add: getCourse_def getSortedCourseCodes_def)
  from a b n getCourse_absent [of t c schar] getCourse_error [of schar c t]
  show ?thesis by blast
qed



theorem lookup_error_kinds_witness:
  "\<not> dataLoaded HashTable_ctor
   \<and> getCourse True ''cs999'' HashTable_ctor = Inl NoDataLoaded
   \<and> getSortedCourseCodes HashTable_ctor = (Inl NoDataLoaded, HashTable_ctor)
   \<and> dataLoaded (HashTable_ctor\<lparr>dataLoaded := True\<rparr>)
   \<and> table_ok (HashTable_ctor\<lparr>dataLoaded := True\<rparr>)
   \<and> toUpper ''cs999'' \<notin> canon ` set (stored (HashTable_ctor\<lparr>dataLoaded := True\<rparr>))
   \<and> getCourse True ''cs999'' (HashTable_ctor\<lparr>dataLoaded := True\<rparr>) = Inl CourseNotFound
   \<and> map parseCourse [''CS101,Intro to CS'']
       = map Inr [\<lparr>code = ''CS101'', title = ''Intro to CS'', prerequisites = []\<rparr>]
   \<and> toUpper ''cs999''
       \<notin> canon ` set [\<lparr>code = ''CS101'', title = ''Intro to CS'', prerequisites = []\<rparr>]
   \<and> getCourse True ''cs999''
         (snd (loadData True ''Program_Input.csv'' (Some [''CS101,Intro to CS''])
                (HashTable_ctor\<lparr>dataLoaded := True\<rparr>)))
       = Inl CourseNotFound
   \<and> table (insert_ht True \<lparr>code = ''CS101'', title = ''Intro to CS'', prerequisites = []\<rparr>
               (HashTable_ctor\<lparr>dataLoaded := True\<rparr>)) ! hash True (toUpper ''cs999'')
       = table (HashTable_ctor\<lparr>dataLoaded := True\<rparr>) ! hash True (toUpper ''cs999'')
   \<and> getCourse True ''cs999''
         (insert_ht True \<lparr>code = ''CS101'', title = ''Intro to CS'', prerequisites = []\<rparr>
           (HashTable_ctor\<lparr>dataLoaded := True\<rparr>))
       = getCourse True ''cs999'' (HashTable_ctor\<lparr>dataLoaded := True\<rparr>)"
proof -
  let ?r1 = "\<lparr>code = ''CS101'', title = ''Intro to CS'', prerequisites = []\<rparr>"
  let ?t = "HashTable_ctor\<lparr>dataLoaded := True\<rparr>"
  have u: "\<not> dataLoaded HashTable_ctor"
    by (simp add: HashTable_ctor_def)
  have t1: "dataLoaded ?t" and t2: "table_ok ?t"
    by (simp_all add: table_ok_def HashTable_ctor_def)
  have t3: "toUpper ''cs999'' \<notin> canon ` set (stored ?t)"
    by (simp add: stored_def HashTable_ctor_def)
  have p: "map parseCourse [''CS101,Intro to CS''] = map Inr [?r1]"
    by code_simp
  have k: "toUpper ''cs999'' = ''CS999''" and c1: "canon ?r1 = ''CS101''"
    by code_simp+
  have a: "toUpper ''cs999'' \<notin> canon ` set [?r1]"
    by (simp add: k c1)
  have b1: "dataLoaded (insert_ht True ?r1 ?t) = dataLoaded ?t"
    by (simp add: insert_ht_simps)
  have b2: "table (insert_ht True ?r1 ?t) ! hash True (toUpper ''cs999'')
      = table ?t ! hash True (toUpper ''cs999'')"
    by code_simp
  from lookup_error_kinds [of HashTable_ctor True "''cs999''" ?t "[''CS101,Intro to CS'']"
      "[?r1]" "''Program_Input.csv''" "insert_ht True ?r1 ?t"]
    u t1 t2 t3 p a b1 b2
  show ?thesis by blast
qed



text \<open>
  Claim C9. When the source cannot be opened, \<^verbatim>\<open>loadData\<close> throws before it touches
  any member: the state returned with the error is the state before the call, buckets
  (or map), code list and loaded flag. This holds in E1 and E2 for the file and in E3
  for the database.
\<close>
theorem load_unopenable_source_touches_nothing:
  "loadData_e1 filename None t1 = (Some (CouldNotOpenFile filename), t1)
   \<and> loadData schar filename None t = (Some (CouldNotOpenFile filename), t)
   \<and> loadData_e3 schar OpenFails t = (Some CouldNotOpenDatabase, t)"
  by (simp add: loadData_e1_def loadData_def loadData_e3_def)

lemma getSortedCourseCodes_loaded:
  "dataLoaded t \<Longrightarrow>
   getSortedCourseCodes t
     = (Inr (sort (courseOrder t)), t\<lparr>courseOrder := sort (courseOrder t)\<rparr>)"
  by (simp add: getSortedCourseCodes_def Let_def)

lemma getSortedCourseCodes_e1_loaded:
  "dataLoaded_e1 t \<Longrightarrow>
   getSortedCourseCodes_e1 t
     = (Inr (sort (courseOrder_e1 t)), t\<lparr>courseOrder_e1 := sort (courseOrder_e1 t)\<rparr>)"
  by (simp add: getSortedCourseCodes_e1_def Let_def)

lemma sort_sort: "sort (sort xs) = sort (xs :: string list)"
  by (simp add: sorted_sort_id)

lemma sort_mset_eq: "mset xs = mset ys \<Longrightarrow> sort xs = sort (ys :: string list)"
  by (metis properties_for_sort mset_sort sorted_sort)

text \<open>
  Claim C10. On a loaded table the sorted listing sorts the member \<^verbatim>\<open>courseOrder\<close>
  itself: the list returned is the list now stored, it is ascending and a permutation of
  the old one, and the stored list depends on the codes only, not on the order in which
  they were inserted. A second call returns the same list and leaves the same state, and
  no lookup changes its result. The same holds for E1.
\<close>
theorem sorted_listing_sorts_in_place:
  "(dataLoaded t \<longrightarrow>
      fst (getSortedCourseCodes t) = Inr (courseOrder (snd (getSortedCourseCodes t)))
    \<and> sorted (courseOrder (snd (getSortedCourseCodes t)))
    \<and> mset (courseOrder (snd (getSortedCourseCodes t))) = mset (courseOrder t)
    \<and> table (snd (getSortedCourseCodes t)) = table t
    \<and> dataLoaded (snd (getSortedCourseCodes t))
    \<and> getSortedCourseCodes (snd (getSortedCourseCodes t))
        = (fst (getSortedCourseCodes t), snd (getSortedCourseCodes t))
    \<and> getCourse schar c (snd (getSortedCourseCodes t)) = getCourse schar c t
    \<and> (\<forall>u. dataLoaded u \<and> mset (courseOrder u) = mset (courseOrder t) \<longrightarrow>
          courseOrder (snd (getSortedCourseCodes u)) = courseOrder (snd (getSortedCourseCodes t))))
   \<and> (dataLoaded_e1 t1 \<longrightarrow>
      fst (getSortedCourseCodes_e1 t1) = Inr (courseOrder_e1 (snd (getSortedCourseCodes_e1 t1)))
    \<and> sorted (courseOrder_e1 (snd (getSortedCourseCodes_e1 t1)))
    \<and> mset (courseOrder_e1 (snd (getSortedCourseCodes_e1 t1))) = mset (courseOrder_e1 t1)
    \<and> courseMap_e1 (snd (getSortedCourseCodes_e1 t1)) = courseMap_e1 t1
    \<and> dataLoaded_e1 (snd (getSortedCourseCodes_e1 t1))
    \<and> getSortedCourseCodes_e1 (snd (getSortedCourseCodes_e1 t1))
        = (fst (getSortedCourseCodes_e1 t1), snd (getSortedCourseCodes_e1 t1))
    \<and> getCourse_e1 c (snd (getSortedCourseCodes_e1 t1)) = getCourse_e1 c t1)"
proof -
  have e2: "getCourse schar c (t\<lparr>courseOrder := ks\<rparr>) = getCourse schar c t" for ks
    by (simp add: getCourse_def)
  have e1: "getCourse_e1 c (t1\<lparr>courseOrder_e1 := ks\<rparr>) = getCourse_e1 c t1" for ks
    by (simp add: getCourse_e1_def)
  have A: "fst (getSortedCourseCodes t) = Inr (courseOrder (snd (getSortedCourseCodes t)))
    \<and> sorted (courseOrder (snd (getSortedCourseCodes t)))
    \<and> mset (courseOrder (snd (getSortedCourseCodes t))) = mset (courseOrder t)
    \<and> table (snd (getSortedCourseCodes t)) = table t
    \<and> dataLoaded (snd (getSortedCourseCodes t))
    \<and> getSortedCourseCodes (snd (getSortedCourseCodes t))
        = (fst (getSortedCourseCodes t), snd (getSortedCourseCodes t))
    \<and> getCourse schar c (snd (getSortedCourseCodes t)) = getCourse schar c t"
    if "dataLoaded t"
    using that by (simp add: getSortedCourseCodes_loaded sort_sort e2)
  have B: "courseOrder (snd (getSortedCourseCodes u)) = courseOrder (snd (getSortedCourseCodes t))"
    if "dataLoaded t" "dataLoaded u" "mset (courseOrder u) = mset (courseOrder t)" for u
    using that sort_mset_eq [of "courseOrder u" "courseOrder t"]
    by (simp add: getSortedCourseCodes_loaded)
  have C: "fst (getSortedCourseCodes_e1 t1) = Inr (courseOrder_e1 (snd (getSortedCourseCodes_e1 t1)))
    \<and> sorted (courseOrder_e1 (snd (getSortedCourseCodes_e1 t1)))
    \<and> mset (courseOrder_e1 (snd (getSortedCourseCodes_e1 t1))) = mset (courseOrder_e1 t1)
    \<and> courseMap_e1 (snd (getSortedCourseCodes_e1 t1)) = courseMap_e1 t1
    \<and> dataLoaded_e1 (snd (getSortedCourseCodes_e1 t1))
    \<and> getSortedCourseCodes_e1 (snd (getSortedCourseCodes_e1 t1))
        = (fst (getSortedCourseCodes_e1 t1), snd (getSortedCourseCodes_e1 t1))
    \<and> getCourse_e1 c (snd (getSortedCourseCodes_e1 t1)) = getCourse_e1 c t1"
    if "dataLoaded_e1 t1"
    using that by (simp add: getSortedCourseCodes_e1_loaded sort_sort e1)
  from A B C show ?thesis by blast
qed


theorem sorted_listing_sorts_in_place_witness:
  "dataLoaded (snd (loadData True ''Program_Input.csv''
                 (Some [''CS201,Data Structures,CS101'', ''CS101,Intro to CS'']) HashTable_ctor))
   \<and> courseOrder (snd (loadData True ''Program_Input.csv''
                 (Some [''CS201,Data Structures,CS101'', ''CS101,Intro to CS'']) HashTable_ctor))
       = [''CS201'', ''CS101'']
   \<and> courseOrder (snd (getSortedCourseCodes (snd (loadData True ''Program_Input.csv''
                 (Some [''CS201,Data Structures,CS101'', ''CS101,Intro to CS'']) HashTable_ctor))))
       = [''CS101'', ''CS201'']
   \<and> sorted (courseOrder (snd (getSortedCourseCodes (snd (loadData True ''Program_Input.csv''
                 (Some [''CS201,Data Structures,CS101'', ''CS101,Intro to CS'']) HashTable_ctor)))))
   \<and> dataLoaded_e1 (snd (loadData_e1 ''Program_Input.csv''
                 (Some [''CS201,Data Structures,CS101'', ''CS101,Intro to CS'']) HashTable_e1_ctor))
   \<and> courseOrder_e1 (snd (loadData_e1 ''Program_Input.csv''
                 (Some [''CS201,Data Structures,CS101'', ''CS101,Intro to CS'']) HashTable_e1_ctor))
       = [''CS201'', ''CS101'']
   \<and> fst (getSortedCourseCodes_e1 (snd (loadData_e1 ''Program_Input.csv''
                 (Some [''CS201,Data Structures,CS101'', ''CS101,Intro to CS'']) HashTable_e1_ctor)))
       = Inr (courseOrder_e1 (snd (getSortedCourseCodes_e1 (snd (loadData_e1 ''Program_Input.csv''
                 (Some [''CS201,Data Structures,CS101'', ''CS101,Intro to CS'']) HashTable_e1_ctor)))))
   \<and> courseOrder_e1 (snd (getSortedCourseCodes_e1 (snd (loadData_e1 ''Program_Input.csv''
                 (Some [''CS201,Data Structures,CS101'', ''CS101,Intro to CS'']) HashTable_e1_ctor))))
       = [''CS101'', ''CS201'']"
proof -
  let ?t = "snd (loadData True ''Program_Input.csv''
                 (Some [''CS201,Data Structures,CS101'', ''CS101,Intro to CS'']) HashTable_ctor)"
  let ?t1 = "snd (loadData_e1 ''Program_Input.csv''
                 (Some [''CS201,Data Structures,CS101'', ''CS101,Intro to CS'']) HashTable_e1_ctor)"
  have h: "dataLoaded ?t" and o: "courseOrder ?t = [''CS201'', ''CS101'']"
    by code_simp+
  have h1: "dataLoaded_e1 ?t1" and o1: "courseOrder_e1 ?t1 = [''CS201'', ''CS101'']"
    by code_simp+
  have s: "courseOrder (snd (getSortedCourseCodes ?t)) = [''CS101'', ''CS201'']"
    by (simp add: getSortedCourseCodes_loaded [OF h] o)
  have s1: "courseOrder_e1 (snd (getSortedCourseCodes_e1 ?t1)) = [''CS101'', ''CS201'']"
    by (simp add: getSortedCourseCodes_e1_loaded [OF h1] o1)
  from sorted_listing_sorts_in_place [of ?t True "''CS101''" ?t1] h h1 o o1 s s1
  show ?thesis by metis
qed

section \<open>What the buckets hold after a sequence of inserts\<close>

lemma mset_concat_update:
  "i < length xs \<Longrightarrow> mset (concat (xs[i := xs ! i @ ys])) = mset (concat xs) + mset ys"
proof (induction xs arbitrary: i)
  case Nil
  then show ?case by simp
next
  case (Cons x xs)
  then show ?case by (cases i) simp_all
qed

lemma stored_insert_ht:
  "table_ok t \<Longrightarrow> mset (stored (insert_ht schar r t)) = mset (stored t) + {#r#}"
  using hash_less [of schar "toUpper (code r)"]
  by (simp add: stored_def insert_ht_def Let_def table_ok_def chain_append_eq mset_concat_update)

lemma stored_insert_all:
  "table_ok t \<Longrightarrow> mset (stored (insert_all schar rs t)) = mset (stored t) + mset rs"
  unfolding insert_all_def
  by (induction rs arbitrary: t) (simp_all add: stored_insert_ht insert_ht_ok)

lemma stored_cleared: "stored (cleared t) = []"
  by (simp add: stored_def cleared_def)

lemma stored_after_load:
  "table_ok t \<Longrightarrow> mset (stored (insert_all schar rs (cleared t))) = mset rs"
  by (simp add: stored_insert_all cleared_simps stored_cleared)

lemma clearTable_eq: "clearTable t = t\<lparr>table := map (\<lambda>chain. []) (table t)\<rparr>"
  by (simp add: clearTable_def delete_chain_eq)

lemma clearTable_cleared: "clearTable (t\<lparr>courseOrder := []\<rparr>) = cleared t"
  by (simp add: clearTable_eq cleared_def)

lemma load_rows_good:
  "map row_course rows = map Inr rs \<Longrightarrow> load_rows schar rows t = (None, insert_all schar rs t)"
  unfolding insert_all_def
  by (induction rows arbitrary: rs t) auto

lemma loadData_e3_good:
  assumes "map row_course rows = map Inr rs"
  shows "loadData_e3 schar (Rows rows) t
      = (None, (insert_all schar rs (cleared t))\<lparr>dataLoaded := True\<rparr>)"
proof -
  have "load_rows schar rows (cleared t) = (None, insert_all schar rs (cleared t))"
    using assms by (rule load_rows_good)
  then show ?thesis
    by (simp add: loadData_e3_def clearTable_cleared)
qed

section \<open>Properties of the table on the map (E1)\<close>

lemma store_e1_simps:
  "dataLoaded_e1 (store_e1 r t) = dataLoaded_e1 t"
  "courseOrder_e1 (store_e1 r t) = courseOrder_e1 t @ [canon r]"
  "courseMap_e1 (store_e1 r t) = (courseMap_e1 t)(canon r \<mapsto> r)"
  by (simp_all add: store_e1_def Let_def canon_def)

lemma store_all_e1_simps:
  "dataLoaded_e1 (store_all_e1 rs t) = dataLoaded_e1 t"
  "courseOrder_e1 (store_all_e1 rs t) = courseOrder_e1 t @ map canon rs"
  unfolding store_all_e1_def
  by (induction rs arbitrary: t) (simp_all add: store_e1_simps)

lemma store_all_e1_append:
  "store_all_e1 (rs @ rs') t = store_all_e1 rs' (store_all_e1 rs t)"
  by (simp add: store_all_e1_def)

lemma store_all_e1_other:
  "k \<notin> canon ` set rs \<Longrightarrow> courseMap_e1 (store_all_e1 rs t) k = courseMap_e1 t k"
  unfolding store_all_e1_def
  by (induction rs arbitrary: t) (simp_all add: store_e1_simps)

lemma store_all_e1_last:
  "canon r \<notin> canon ` set post \<Longrightarrow>
   courseMap_e1 (store_all_e1 (pre @ r # post) t) (canon r) = Some r"
proof -
  assume a: "canon r \<notin> canon ` set post"
  have "store_all_e1 (pre @ r # post) t = store_all_e1 post (store_e1 r (store_all_e1 pre t))"
    by (simp add: store_all_e1_def)
  then show ?thesis
    using a by (simp add: store_all_e1_other store_e1_simps)
qed

lemma load_lines_e1_good:
  "map parseCourse lines = map Inr rs \<Longrightarrow>
   load_lines_e1 n lines t = (None, store_all_e1 rs t)"
  unfolding store_all_e1_def
  by (induction lines arbitrary: rs n t) auto

lemma load_lines_e1_bad:
  "map parseCourse good = map Inr rs \<Longrightarrow> parseCourse bad = Inl e \<Longrightarrow>
   load_lines_e1 n (good @ bad # rest) t
     = (Some (ErrorOnLine (n + length good + 1) e), store_all_e1 rs t)"
  unfolding store_all_e1_def
  by (induction good arbitrary: rs n t) auto

lemma loadData_e1_good:
  assumes "map parseCourse lines = map Inr rs"
  shows "loadData_e1 fn (Some lines) t
      = (None, (store_all_e1 rs (cleared_e1 t))\<lparr>dataLoaded_e1 := True\<rparr>)"
proof -
  have "load_lines_e1 0 lines (cleared_e1 t) = (None, store_all_e1 rs (cleared_e1 t))"
    using assms by (rule load_lines_e1_good)
  then show ?thesis
    by (simp add: loadData_e1_def cleared_e1_def)
qed

lemma loadData_e1_bad:
  assumes "map parseCourse good = map Inr rs" and "parseCourse bad = Inl e"
  shows "loadData_e1 fn (Some (good @ bad # rest)) t
      = (Some (ErrorOnLine (length good + 1) e), store_all_e1 rs (cleared_e1 t))"
proof -
  have "load_lines_e1 0 (good @ bad # rest) (cleared_e1 t)
      = (Some (ErrorOnLine (0 + length good + 1) e), store_all_e1 rs (cleared_e1 t))"
    using assms by (rule load_lines_e1_bad)
  then show ?thesis
    by (simp add: loadData_e1_def cleared_e1_def)
qed

lemma getCourse_e1_after_load:
  "getCourse_e1 c ((store_all_e1 rs (cleared_e1 t))\<lparr>dataLoaded_e1 := True\<rparr>)
     = (case courseMap_e1 (store_all_e1 rs (cleared_e1 t)) (toUpper c) of
          None \<Rightarrow> Inl CourseNotFound | Some r \<Rightarrow> Inr r)"
  by (simp add: getCourse_e1_def Let_def)

lemma getCourse_e1_last:
  assumes "canon r \<notin> canon ` set post" and "toUpper c = canon r"
  shows "getCourse_e1 c ((store_all_e1 (pre @ r # post) (cleared_e1 t))\<lparr>dataLoaded_e1 := True\<rparr>)
      = Inr r"
  using assms by (simp add: getCourse_e1_after_load store_all_e1_last)

lemma getCourse_e1_absent:
  assumes "toUpper c \<notin> canon ` set rs"
  shows "getCourse_e1 c ((store_all_e1 rs (cleared_e1 t))\<lparr>dataLoaded_e1 := True\<rparr>)
      = Inl CourseNotFound"
proof -
  have "courseMap_e1 (store_all_e1 rs (cleared_e1 t)) (toUpper c)
      = courseMap_e1 (cleared_e1 t) (toUpper c)"
    using assms by (rule store_all_e1_other)
  also have "\<dots> = None"
    by (simp add: cleared_e1_def)
  finally show ?thesis
    by (simp add: getCourse_e1_after_load)
qed

lemma getCourse_first:
  assumes ok: "table_ok t" and "canon r \<notin> canon ` set pre" and "toUpper c = canon r"
  shows "getCourse schar c ((insert_all schar (pre @ r # post) (cleared t))\<lparr>dataLoaded := True\<rparr>)
      = Inr r"
proof -
  let ?P = "\<lambda>r'. hash schar (toUpper (code r')) = hash schar (toUpper c)"
  have "toUpper c \<notin> (\<lambda>r. toUpper (code r)) ` set (filter ?P pre)"
    using assms(2,3) by (auto simp: canon_def)
  then have "chain_find (toUpper c) (filter ?P pre) = Inl CourseNotFound"
    by (rule chain_find_absent)
  moreover have "chain_find (toUpper c) (filter ?P (r # post)) = Inr r"
    using assms(3) by (simp add: canon_def)
  ultimately show ?thesis
    by (simp add: getCourse_after_load [OF ok] chain_find_append)
qed


text \<open>
  Claim C1, as amended. In E2 and E3 a load keeps every record of its sequence in the
  chains, duplicates included, the lookup of a code returns the first record of the
  sequence with that canonical code, and the sorted listing holds a code once for every
  record that carries it (twice for two). In E1 the listing is the same, but the record
  stored last replaces the earlier ones in the map: the lookup returns the last record
  of the sequence with that canonical code.
\<close>
theorem duplicate_codes_first_wins_in_chains_last_wins_in_map:
  "(table_ok t \<and> map parseCourse lines = map Inr (pre @ r1 # post)
      \<and> canon r1 \<notin> canon ` set pre \<and> toUpper c = canon r1 \<longrightarrow>
        getCourse schar c (snd (loadData schar fn (Some lines) t)) = Inr r1
      \<and> mset (stored (snd (loadData schar fn (Some lines) t))) = mset (pre @ r1 # post)
      \<and> fst (getSortedCourseCodes (snd (loadData schar fn (Some lines) t)))
          = Inr (sort (map canon (pre @ r1 # post)))
      \<and> mset (sort (map canon (pre @ r1 # post))) = mset (map canon (pre @ r1 # post)))
   \<and> (table_ok t3 \<and> map row_course rows = map Inr (pre3 @ r3 # post3)
      \<and> canon r3 \<notin> canon ` set pre3 \<and> toUpper c3 = canon r3 \<longrightarrow>
        getCourse schar c3 (snd (loadData_e3 schar (Rows rows) t3)) = Inr r3
      \<and> mset (stored (snd (loadData_e3 schar (Rows rows) t3))) = mset (pre3 @ r3 # post3)
      \<and> fst (getSortedCourseCodes (snd (loadData_e3 schar (Rows rows) t3)))
          = Inr (sort (map canon (pre3 @ r3 # post3)))
      \<and> mset (sort (map canon (pre3 @ r3 # post3))) = mset (map canon (pre3 @ r3 # post3)))
   \<and> (map parseCourse lines' = map Inr (pre' @ r2 # post')
      \<and> canon r2 \<notin> canon ` set post' \<and> toUpper c' = canon r2 \<longrightarrow>
        getCourse_e1 c' (snd (loadData_e1 fn (Some lines') t1)) = Inr r2
      \<and> fst (getSortedCourseCodes_e1 (snd (loadData_e1 fn (Some lines') t1)))
          = Inr (sort (map canon (pre' @ r2 # post')))
      \<and> mset (sort (map canon (pre' @ r2 # post'))) = mset (map canon (pre' @ r2 # post')))"
proof -
  have S: "stored (X\<lparr>dataLoaded := True\<rparr>) = stored X" for X
    by (simp add: stored_def)
  have A: "getCourse schar c (snd (loadData schar fn (Some lines) t)) = Inr r1
      \<and> mset (stored (snd (loadData schar fn (Some lines) t))) = mset (pre @ r1 # post)
      \<and> fst (getSortedCourseCodes (snd (loadData schar fn (Some lines) t)))
          = Inr (sort (map canon (pre @ r1 # post)))"
    if ok: "table_ok t" and p: "map parseCourse lines = map Inr (pre @ r1 # post)"
      and f: "canon r1 \<notin> canon ` set pre" and c: "toUpper c = canon r1"
  proof -
    have l: "snd (loadData schar fn (Some lines) t)
        = (insert_all schar (pre @ r1 # post) (cleared t))\<lparr>dataLoaded := True\<rparr>"
      by (simp add: loadData_good [OF p])
    show ?thesis
      unfolding l S
      by (simp only: getCourse_first [OF ok f c] stored_after_load [OF ok]
            sorted_codes_after_load simp_thms)
  qed
  have D: "getCourse schar c3 (snd (loadData_e3 schar (Rows rows) t3)) = Inr r3
      \<and> mset (stored (snd (loadData_e3 schar (Rows rows) t3))) = mset (pre3 @ r3 # post3)
      \<and> fst (getSortedCourseCodes (snd (loadData_e3 schar (Rows rows) t3)))
          = Inr (sort (map canon (pre3 @ r3 # post3)))"
    if ok: "table_ok t3" and p: "map row_course rows = map Inr (pre3 @ r3 # post3)"
      and f: "canon r3 \<notin> canon ` set pre3" and c: "toUpper c3 = canon r3"
  proof -
    have l: "snd (loadData_e3 schar (Rows rows) t3)
        = (insert_all schar (pre3 @ r3 # post3) (cleared t3))\<lparr>dataLoaded := True\<rparr>"
      by (simp add: loadData_e3_good [OF p])
    show ?thesis
      unfolding l S
      by (simp only: getCourse_first [OF ok f c] stored_after_load [OF ok]
            sorted_codes_after_load simp_thms)
  qed
  have B: "getCourse_e1 c' (snd (loadData_e1 fn (Some lines') t1)) = Inr r2
      \<and> fst (getSortedCourseCodes_e1 (snd (loadData_e1 fn (Some lines') t1)))
          = Inr (sort (map canon (pre' @ r2 # post')))"
    if p: "map parseCourse lines' = map Inr (pre' @ r2 # post')"
      and f: "canon r2 \<notin> canon ` set post'" and c: "toUpper c' = canon r2"
  proof -
    have l: "snd (loadData_e1 fn (Some lines') t1)
        = (store_all_e1 (pre' @ r2 # post') (cleared_e1 t1))\<lparr>dataLoaded_e1 := True\<rparr>"
      by (simp add: loadData_e1_good [OF p])
    have "fst (getSortedCourseCodes_e1
          ((store_all_e1 (pre' @ r2 # post') (cleared_e1 t1))\<lparr>dataLoaded_e1 := True\<rparr>))
        = Inr (sort (map canon (pre' @ r2 # post')))"
      by (simp add: getSortedCourseCodes_e1_def Let_def store_all_e1_simps cleared_e1_def)
    then show ?thesis
      unfolding l by (simp only: getCourse_e1_last [OF f c] simp_thms)
  qed
  have C: "mset (sort xs) = mset xs" for xs :: "string list"
    by simp
  from A B C D show ?thesis by blast
qed

theorem duplicate_codes_first_wins_in_chains_last_wins_in_map_witness:
  "table_ok HashTable_ctor
   \<and> map parseCourse [''CS101,First'', ''cs101,Second'']
       = map Inr ([] @ \<lparr>code = ''CS101'', title = ''First'', prerequisites = []\<rparr>
                    # [\<lparr>code = ''cs101'', title = ''Second'', prerequisites = []\<rparr>])
   \<and> canon \<lparr>code = ''CS101'', title = ''First'', prerequisites = []\<rparr> \<notin> canon ` set []
   \<and> toUpper ''Cs101'' = canon \<lparr>code = ''CS101'', title = ''First'', prerequisites = []\<rparr>
   \<and> getCourse True ''Cs101''
         (snd (loadData True ''Program_Input.csv''
                (Some [''CS101,First'', ''cs101,Second'']) HashTable_ctor))
       = Inr \<lparr>code = ''CS101'', title = ''First'', prerequisites = []\<rparr>
   \<and> fst (getSortedCourseCodes
         (snd (loadData True ''Program_Input.csv''
                (Some [''CS101,First'', ''cs101,Second'']) HashTable_ctor)))
       = Inr [''CS101'', ''CS101'']
   \<and> map row_course [(''CS101'', ''First, of two'', []), (''cs101'', ''Second'', [])]
       = map Inr ([] @ \<lparr>code = ''CS101'', title = ''First, of two'', prerequisites = []\<rparr>
                    # [\<lparr>code = ''cs101'', title = ''Second'', prerequisites = []\<rparr>])
   \<and> canon \<lparr>code = ''CS101'', title = ''First, of two'', prerequisites = []\<rparr> \<notin> canon ` set []
   \<and> toUpper ''Cs101''
       = canon \<lparr>code = ''CS101'', title = ''First, of two'', prerequisites = []\<rparr>
   \<and> getCourse True ''Cs101''
         (snd (loadData_e3 True
                (Rows [(''CS101'', ''First, of two'', []), (''cs101'', ''Second'', [])])
                HashTable_ctor))
       = Inr \<lparr>code = ''CS101'', title = ''First, of two'', prerequisites = []\<rparr>
   \<and> fst (getSortedCourseCodes
         (snd (loadData_e3 True
                (Rows [(''CS101'', ''First, of two'', []), (''cs101'', ''Second'', [])])
                HashTable_ctor)))
       = Inr [''CS101'', ''CS101'']
   \<and> map parseCourse [''CS101,First'', ''cs101,Second'']
       = map Inr ([\<lparr>code = ''CS101'', title = ''First'', prerequisites = []\<rparr>]
                    @ \<lparr>code = ''cs101'', title = ''Second'', prerequisites = []\<rparr> # [])
   \<and> canon \<lparr>code = ''cs101'', title = ''Second'', prerequisites = []\<rparr> \<notin> canon ` set []
   \<and> toUpper ''Cs101'' = canon \<lparr>code = ''cs101'', title = ''Second'', prerequisites = []\<rparr>
   \<and> getCourse_e1 ''Cs101''
         (snd (loadData_e1 ''Program_Input.csv''
                (Some [''CS101,First'', ''cs101,Second'']) HashTable_e1_ctor))
       = Inr \<lparr>code = ''cs101'', title = ''Second'', prerequisites = []\<rparr>
   \<and> fst (getSortedCourseCodes_e1
         (snd (loadData_e1 ''Program_Input.csv''
                (Some [''CS101,First'', ''cs101,Second'']) HashTable_e1_ctor)))
       = Inr [''CS101'', ''CS101'']"
proof -
  let ?r1 = "\<lparr>code = ''CS101'', title = ''First'', prerequisites = []\<rparr>"
  let ?r2 = "\<lparr>code = ''cs101'', title = ''Second'', prerequisites = []\<rparr>"
  let ?r3 = "\<lparr>code = ''CS101'', title = ''First, of two'', prerequisites = []\<rparr>"
  have ok: "table_ok HashTable_ctor"
    by (simp add: table_ok_def HashTable_ctor_def)
  have p: "map parseCourse [''CS101,First'', ''cs101,Second''] = map Inr ([] @ ?r1 # [?r2])"
    and p': "map parseCourse [''CS101,First'', ''cs101,Second''] = map Inr ([?r1] @ ?r2 # [])"
    and q: "map row_course [(''CS101'', ''First, of two'', []), (''cs101'', ''Second'', [])]
        = map Inr ([] @ ?r3 # [?r2])"
    by code_simp+
  have c1: "canon ?r1 = ''CS101''" and c2: "canon ?r2 = ''CS101''"
    and c3: "canon ?r3 = ''CS101''" and k: "toUpper ''Cs101'' = ''CS101''"
    by code_simp+
  have f: "canon ?r1 \<notin> canon ` set []" and f': "canon ?r2 \<notin> canon ` set []"
    and f3: "canon ?r3 \<notin> canon ` set []"
    by simp_all
  have s: "sort (map canon ([] @ ?r1 # [?r2])) = [''CS101'', ''CS101'']"
    and s': "sort (map canon ([?r1] @ ?r2 # [])) = [''CS101'', ''CS101'']"
    and s3: "sort (map canon ([] @ ?r3 # [?r2])) = [''CS101'', ''CS101'']"
    by (simp_all add: c1 c2 c3)
  from duplicate_codes_first_wins_in_chains_last_wins_in_map
    [of HashTable_ctor "[''CS101,First'', ''cs101,Second'']" "[]" ?r1 "[?r2]" "''Cs101''"
        True "''Program_Input.csv''" HashTable_ctor
        "[(''CS101'', ''First, of two'', []), (''cs101'', ''Second'', [])]" "[]" ?r3 "[?r2]"
        "''Cs101''" "[''CS101,First'', ''cs101,Second'']" "[?r1]" ?r2 "[]"
        "''Cs101''" HashTable_e1_ctor]
    ok p p' q f f' f3 k c1 c2 c3 s s' s3
  show ?thesis by metis
qed

text \<open>
  The claim as written fails on E1, one of its two sources: after the two records
  \<^verbatim>\<open>CS101,First\<close> and \<^verbatim>\<open>cs101,Second\<close> the lookup of \<^verbatim>\<open>CS101\<close> returns the second.
\<close>
theorem map_table_second_record_overwrites_first:
  "map parseCourse [''CS101,First'', ''cs101,Second'']
     = map Inr [\<lparr>code = ''CS101'', title = ''First'', prerequisites = []\<rparr>,
                \<lparr>code = ''cs101'', title = ''Second'', prerequisites = []\<rparr>]
   \<and> canon \<lparr>code = ''CS101'', title = ''First'', prerequisites = []\<rparr>
       = canon \<lparr>code = ''cs101'', title = ''Second'', prerequisites = []\<rparr>
   \<and> getCourse_e1 ''CS101''
         (snd (loadData_e1 ''Program_Input.csv''
                (Some [''CS101,First'', ''cs101,Second'']) HashTable_e1_ctor))
       = Inr \<lparr>code = ''cs101'', title = ''Second'', prerequisites = []\<rparr>
   \<and> getCourse_e1 ''CS101''
         (snd (loadData_e1 ''Program_Input.csv''
                (Some [''CS101,First'', ''cs101,Second'']) HashTable_e1_ctor))
       \<noteq> Inr \<lparr>code = ''CS101'', title = ''First'', prerequisites = []\<rparr>"
proof -
  have "getCourse_e1 ''CS101''
         (snd (loadData_e1 ''Program_Input.csv''
                (Some [''CS101,First'', ''cs101,Second'']) HashTable_e1_ctor))
       = Inr \<lparr>code = ''cs101'', title = ''Second'', prerequisites = []\<rparr>"
    by code_simp
  moreover have "map parseCourse [''CS101,First'', ''cs101,Second'']
     = map Inr [\<lparr>code = ''CS101'', title = ''First'', prerequisites = []\<rparr>,
                \<lparr>code = ''cs101'', title = ''Second'', prerequisites = []\<rparr>]"
    by code_simp
  moreover have "canon \<lparr>code = ''CS101'', title = ''First'', prerequisites = []\<rparr>
       = canon \<lparr>code = ''cs101'', title = ''Second'', prerequisites = []\<rparr>"
    by code_simp
  ultimately show ?thesis by simp
qed

lemma getCourse_unloaded_agree:
  "getCourse_e1 c HashTable_e1_ctor = getCourse schar c HashTable_ctor"
  by (simp add: getCourse_e1_def getCourse_def HashTable_e1_ctor_def HashTable_ctor_def)

lemma variants_lookup_agree:
  assumes ok: "table_ok t2" and d: "distinct (map canon rs)"
  shows "getCourse_e1 c ((store_all_e1 rs (cleared_e1 t1))\<lparr>dataLoaded_e1 := True\<rparr>)
      = getCourse schar c ((insert_all schar rs (cleared t2))\<lparr>dataLoaded := True\<rparr>)"
proof (cases "toUpper c \<in> canon ` set rs")
  case True
  then obtain r where r: "r \<in> set rs" and c: "toUpper c = canon r"
    by auto
  from r obtain pre post where rs: "rs = pre @ r # post"
    by (auto dest: split_list)
  from d have "canon r \<notin> canon ` set post"
    unfolding rs by auto
  then have "getCourse_e1 c ((store_all_e1 rs (cleared_e1 t1))\<lparr>dataLoaded_e1 := True\<rparr>) = Inr r"
    unfolding rs using c by (rule getCourse_e1_last)
  moreover have "getCourse schar c ((insert_all schar rs (cleared t2))\<lparr>dataLoaded := True\<rparr>) = Inr r"
    using ok d r c by (rule getCourse_distinct)
  ultimately show ?thesis by simp
next
  case False
  then show ?thesis
    by (simp add: getCourse_e1_absent getCourse_absent_after_load [OF ok])
qed

lemma chain_find_first_with:
  "chain_find k (filter (\<lambda>r. hash schar (toUpper (code r)) = hash schar k) rs)
     = lookup_result (first_with k rs)"
  by (induction rs) (simp_all add: first_with_def lookup_result_def canon_def)

lemma getCourse_after_load_first:
  assumes "table_ok t"
  shows "getCourse schar c ((insert_all schar rs (cleared t))\<lparr>dataLoaded := True\<rparr>)
      = lookup_result (first_with (toUpper c) rs)"
  by (simp add: getCourse_after_load [OF assms] chain_find_first_with)

lemma find_snoc:
  "find P (xs @ [x]) = (case find P xs of None \<Rightarrow> (if P x then Some x else None) | Some y \<Rightarrow> Some y)"
  by (induction xs) simp_all

lemma store_all_e1_last_with:
  "courseMap_e1 (store_all_e1 rs t) k
     = (case last_with k rs of None \<Rightarrow> courseMap_e1 t k | Some r \<Rightarrow> Some r)"
  unfolding store_all_e1_def last_with_def
proof (induction rs arbitrary: t)
  case Nil
  show ?case by simp
next
  case (Cons x xs)
  show ?case
    by (simp add: Cons.IH find_snoc store_e1_simps split: option.splits)
qed

lemma getCourse_e1_after_load_last:
  "getCourse_e1 c ((store_all_e1 rs (cleared_e1 t))\<lparr>dataLoaded_e1 := True\<rparr>)
     = lookup_result (last_with (toUpper c) rs)"
proof -
  have "courseMap_e1 (cleared_e1 t) (toUpper c) = None"
    by (simp add: cleared_e1_def)
  then have "courseMap_e1 (store_all_e1 rs (cleared_e1 t)) (toUpper c) = last_with (toUpper c) rs"
    by (simp add: store_all_e1_last_with split: option.splits)
  then show ?thesis
    by (simp add: getCourse_e1_after_load lookup_result_def)
qed

lemma lookup_result_eq_iff: "lookup_result a = lookup_result b \<longleftrightarrow> a = b"
  by (simp add: lookup_result_def split: option.splits)

lemma last_with_single:
  "length (filter (\<lambda>r. canon r = k) rs) \<le> 1 \<Longrightarrow> last_with k rs = first_with k rs"
  unfolding last_with_def first_with_def
proof (induction rs)
  case Nil
  show ?case by simp
next
  case (Cons x xs)
  show ?case
  proof (cases "canon x = k")
    case True
    with Cons.prems have "filter (\<lambda>r. canon r = k) xs = []"
      by simp
    then have "\<forall>r \<in> set (rev xs). canon r \<noteq> k"
      by (simp add: filter_empty_conv)
    then have "find (\<lambda>r. canon r = k) (rev xs) = None"
      by (simp add: find_None_iff)
    with True show ?thesis
      by (simp add: find_snoc)
  next
    case False
    with Cons show ?thesis
      by (simp add: find_snoc split: option.splits)
  qed
qed


text \<open>
  Claim C4, as amended. Loaded with the same sequence of records (E1 and E2 from the same
  lines, E3 from rows that give the same records), the three variants return the same
  sorted listing. For every queried code E2 and E3 return the first record of the
  sequence that carries it, E1 returns the last one, and all three fail with "Course not
  found." when no record carries it. So E1 agrees with E2 and E3 on a queried code exactly
  when the first and the last record carrying it are the same: in particular on every
  code that at most one record carries, whatever other codes are duplicated, and on all
  codes when the canonical codes are pairwise distinct. Before any load the three fail
  alike.
\<close>
theorem variants_agree_when_codes_distinct:
  "table_ok t2 \<and> table_ok t3
   \<and> map parseCourse lines = map Inr rs \<and> map row_course rows = map Inr rs \<longrightarrow>
     fst (loadData_e1 fn (Some lines) t1) = None
   \<and> fst (loadData schar fn (Some lines) t2) = None
   \<and> fst (loadData_e3 schar (Rows rows) t3) = None
   \<and> fst (getSortedCourseCodes_e1 (snd (loadData_e1 fn (Some lines) t1)))
       = fst (getSortedCourseCodes (snd (loadData schar fn (Some lines) t2)))
   \<and> fst (getSortedCourseCodes (snd (loadData_e3 schar (Rows rows) t3)))
       = fst (getSortedCourseCodes (snd (loadData schar fn (Some lines) t2)))
   \<and> getCourse schar c (snd (loadData_e3 schar (Rows rows) t3))
       = getCourse schar c (snd (loadData schar fn (Some lines) t2))
   \<and> getCourse schar c (snd (loadData schar fn (Some lines) t2))
       = lookup_result (first_with (toUpper c) rs)
   \<and> getCourse schar c (snd (loadData_e3 schar (Rows rows) t3))
       = lookup_result (first_with (toUpper c) rs)
   \<and> getCourse_e1 c (snd (loadData_e1 fn (Some lines) t1))
       = lookup_result (last_with (toUpper c) rs)
   \<and> ((getCourse_e1 c (snd (loadData_e1 fn (Some lines) t1))
          = getCourse schar c (snd (loadData schar fn (Some lines) t2)))
        = (last_with (toUpper c) rs = first_with (toUpper c) rs))
   \<and> (length (filter (\<lambda>r. canon r = toUpper c) rs) \<le> 1 \<longrightarrow>
        getCourse_e1 c (snd (loadData_e1 fn (Some lines) t1))
          = getCourse schar c (snd (loadData schar fn (Some lines) t2)))
   \<and> (distinct (map canon rs) \<longrightarrow>
        getCourse_e1 c (snd (loadData_e1 fn (Some lines) t1))
          = getCourse schar c (snd (loadData schar fn (Some lines) t2)))
   \<and> getCourse_e1 c HashTable_e1_ctor = getCourse schar c HashTable_ctor"
proof (intro impI, elim conjE)
  assume ok2: "table_ok t2" and ok3: "table_ok t3"
    and p: "map parseCourse lines = map Inr rs" and q: "map row_course rows = map Inr rs"
  let ?T1 = "(store_all_e1 rs (cleared_e1 t1))\<lparr>dataLoaded_e1 := True\<rparr>"
  let ?T2 = "(insert_all schar rs (cleared t2))\<lparr>dataLoaded := True\<rparr>"
  let ?T3 = "(insert_all schar rs (cleared t3))\<lparr>dataLoaded := True\<rparr>"
  have l1: "loadData_e1 fn (Some lines) t1 = (None, ?T1)"
    using p by (rule loadData_e1_good)
  have l2: "loadData schar fn (Some lines) t2 = (None, ?T2)"
    using p by (rule loadData_good)
  have l3: "loadData_e3 schar (Rows rows) t3 = (None, ?T3)"
    using q by (rule loadData_e3_good)
  have s1: "fst (getSortedCourseCodes_e1 ?T1) = Inr (sort (map canon rs))"
    by (simp add: getSortedCourseCodes_e1_def Let_def store_all_e1_simps cleared_e1_def)
  have s2: "fst (getSortedCourseCodes ?T2) = Inr (sort (map canon rs))"
    and s3: "fst (getSortedCourseCodes ?T3) = Inr (sort (map canon rs))"
    by (rule sorted_codes_after_load)+
  have s12: "fst (getSortedCourseCodes_e1 ?T1) = fst (getSortedCourseCodes ?T2)"
    and s32: "fst (getSortedCourseCodes ?T3) = fst (getSortedCourseCodes ?T2)"
    by (simp_all only: s1 s2 s3)
  have g2: "getCourse schar c ?T2 = lookup_result (first_with (toUpper c) rs)"
    using ok2 by (rule getCourse_after_load_first)
  have g3: "getCourse schar c ?T3 = lookup_result (first_with (toUpper c) rs)"
    using ok3 by (rule getCourse_after_load_first)
  have g1: "getCourse_e1 c ?T1 = lookup_result (last_with (toUpper c) rs)"
    by (rule getCourse_e1_after_load_last)
  have e: "(getCourse_e1 c ?T1 = getCourse schar c ?T2)
      = (last_with (toUpper c) rs = first_with (toUpper c) rs)"
    by (simp only: g1 g2 lookup_result_eq_iff)
  have one: "getCourse_e1 c ?T1 = getCourse schar c ?T2"
    if "length (filter (\<lambda>r. canon r = toUpper c) rs) \<le> 1"
    using last_with_single [OF that] by (simp only: g1 g2)
  have d: "getCourse_e1 c ?T1 = getCourse schar c ?T2" if "distinct (map canon rs)"
    using ok2 that by (rule variants_lookup_agree)
  have u: "getCourse_e1 c HashTable_e1_ctor = getCourse schar c HashTable_ctor"
    by (rule getCourse_unloaded_agree)
  have g32: "getCourse schar c ?T3 = getCourse schar c ?T2"
    by (simp only: g2 g3)
  show "fst (loadData_e1 fn (Some lines) t1) = None
   \<and> fst (loadData schar fn (Some lines) t2) = None
   \<and> fst (loadData_e3 schar (Rows rows) t3) = None
   \<and> fst (getSortedCourseCodes_e1 (snd (loadData_e1 fn (Some lines) t1)))
       = fst (getSortedCourseCodes (snd (loadData schar fn (Some lines) t2)))
   \<and> fst (getSortedCourseCodes (snd (loadData_e3 schar (Rows rows) t3)))
       = fst (getSortedCourseCodes (snd (loadData schar fn (Some lines) t2)))
   \<and> getCourse schar c (snd (loadData_e3 schar (Rows rows) t3))
       = getCourse schar c (snd (loadData schar fn (Some lines) t2))
   \<and> getCourse schar c (snd (loadData schar fn (Some lines) t2))
       = lookup_result (first_with (toUpper c) rs)
   \<and> getCourse schar c (snd (loadData_e3 schar (Rows rows) t3))
       = lookup_result (first_with (toUpper c) rs)
   \<and> getCourse_e1 c (snd (loadData_e1 fn (Some lines) t1))
       = lookup_result (last_with (toUpper c) rs)
   \<and> ((getCourse_e1 c (snd (loadData_e1 fn (Some lines) t1))
          = getCourse schar c (snd (loadData schar fn (Some lines) t2)))
        = (last_with (toUpper c) rs = first_with (toUpper c) rs))
   \<and> (length (filter (\<lambda>r. canon r = toUpper c) rs) \<le> 1 \<longrightarrow>
        getCourse_e1 c (snd (loadData_e1 fn (Some lines) t1))
          = getCourse schar c (snd (loadData schar fn (Some lines) t2)))
   \<and> (distinct (map canon rs) \<longrightarrow>
        getCourse_e1 c (snd (loadData_e1 fn (Some lines) t1))
          = getCourse schar c (snd (loadData schar fn (Some lines) t2)))
   \<and> getCourse_e1 c HashTable_e1_ctor = getCourse schar c HashTable_ctor"
    unfolding l1 l2 l3 fst_conv snd_conv
    using s12 s32 g1 g2 g3 g32 e one d u by blast
qed



theorem variants_agree_when_codes_distinct_witness:
  "table_ok HashTable_ctor
   \<and> map parseCourse [''CS101,Old title'', ''CS101,New title'', ''CS201,Data Structures,CS101'']
       = map Inr [\<lparr>code = ''CS101'', title = ''Old title'', prerequisites = []\<rparr>,
                  \<lparr>code = ''CS101'', title = ''New title'', prerequisites = []\<rparr>,
                  \<lparr>code = ''CS201'', title = ''Data Structures'', prerequisites = [''CS101'']\<rparr>]
   \<and> map row_course [(''CS101'', ''Old title'', []), (''CS101'', ''New title'', []),
                      (''CS201'', ''Data Structures'', ''CS101'')]
       = map Inr [\<lparr>code = ''CS101'', title = ''Old title'', prerequisites = []\<rparr>,
                  \<lparr>code = ''CS101'', title = ''New title'', prerequisites = []\<rparr>,
                  \<lparr>code = ''CS201'', title = ''Data Structures'', prerequisites = [''CS101'']\<rparr>]
   \<and> length (filter (\<lambda>r. canon r = toUpper ''cs201'')
         [\<lparr>code = ''CS101'', title = ''Old title'', prerequisites = []\<rparr>,
          \<lparr>code = ''CS101'', title = ''New title'', prerequisites = []\<rparr>,
          \<lparr>code = ''CS201'', title = ''Data Structures'', prerequisites = [''CS101'']\<rparr>]) \<le> 1
   \<and> getCourse_e1 ''cs201''
         (snd (loadData_e1 ''Program_Input.csv''
                (Some [''CS101,Old title'', ''CS101,New title'', ''CS201,Data Structures,CS101''])
                HashTable_e1_ctor))
       = getCourse True ''cs201''
         (snd (loadData True ''Program_Input.csv''
                (Some [''CS101,Old title'', ''CS101,New title'', ''CS201,Data Structures,CS101''])
                HashTable_ctor))
   \<and> getCourse True ''cs201''
         (snd (loadData True ''Program_Input.csv''
                (Some [''CS101,Old title'', ''CS101,New title'', ''CS201,Data Structures,CS101''])
                HashTable_ctor))
       = Inr \<lparr>code = ''CS201'', title = ''Data Structures'', prerequisites = [''CS101'']\<rparr>
   \<and> map parseCourse [''CS101,Intro to CS'', ''CS201,Data Structures,CS101'']
       = map Inr [\<lparr>code = ''CS101'', title = ''Intro to CS'', prerequisites = []\<rparr>,
                  \<lparr>code = ''CS201'', title = ''Data Structures'', prerequisites = [''CS101'']\<rparr>]
   \<and> map row_course [(''CS101'', ''Intro to CS'', []), (''CS201'', ''Data Structures'', ''CS101'')]
       = map Inr [\<lparr>code = ''CS101'', title = ''Intro to CS'', prerequisites = []\<rparr>,
                  \<lparr>code = ''CS201'', title = ''Data Structures'', prerequisites = [''CS101'']\<rparr>]
   \<and> distinct (map canon [\<lparr>code = ''CS101'', title = ''Intro to CS'', prerequisites = []\<rparr>,
                  \<lparr>code = ''CS201'', title = ''Data Structures'', prerequisites = [''CS101'']\<rparr>])
   \<and> getCourse_e1 ''cs101''
         (snd (loadData_e1 ''Program_Input.csv''
                (Some [''CS101,Intro to CS'', ''CS201,Data Structures,CS101'']) HashTable_e1_ctor))
       = getCourse True ''cs101''
         (snd (loadData True ''Program_Input.csv''
                (Some [''CS101,Intro to CS'', ''CS201,Data Structures,CS101'']) HashTable_ctor))
   \<and> getCourse True ''cs101''
         (snd (loadData_e3 True
                (Rows [(''CS101'', ''Intro to CS'', []), (''CS201'', ''Data Structures'', ''CS101'')])
                HashTable_ctor))
       = getCourse True ''cs101''
         (snd (loadData True ''Program_Input.csv''
                (Some [''CS101,Intro to CS'', ''CS201,Data Structures,CS101'']) HashTable_ctor))"
proof -
  let ?a = "\<lparr>code = ''CS101'', title = ''Old title'', prerequisites = []\<rparr>"
  let ?b = "\<lparr>code = ''CS101'', title = ''New title'', prerequisites = []\<rparr>"
  let ?r1 = "\<lparr>code = ''CS101'', title = ''Intro to CS'', prerequisites = []\<rparr>"
  let ?r2 = "\<lparr>code = ''CS201'', title = ''Data Structures'', prerequisites = [''CS101'']\<rparr>"
  have ok: "table_ok HashTable_ctor"
    by (simp add: table_ok_def HashTable_ctor_def)
  have p: "map parseCourse [''CS101,Old title'', ''CS101,New title'', ''CS201,Data Structures,CS101'']
      = map Inr [?a, ?b, ?r2]"
    by code_simp
  have q: "map row_course [(''CS101'', ''Old title'', []), (''CS101'', ''New title'', []),
                      (''CS201'', ''Data Structures'', ''CS101'')]
      = map Inr [?a, ?b, ?r2]"
    by code_simp
  have p': "map parseCourse [''CS101,Intro to CS'', ''CS201,Data Structures,CS101'']
      = map Inr [?r1, ?r2]"
    by code_simp
  have q': "map row_course [(''CS101'', ''Intro to CS'', []), (''CS201'', ''Data Structures'', ''CS101'')]
      = map Inr [?r1, ?r2]"
    by code_simp
  have ca: "canon ?a = ''CS101''" and cb: "canon ?b = ''CS101''"
    and c1: "canon ?r1 = ''CS101''" and c2: "canon ?r2 = ''CS201''"
    and k: "toUpper ''cs201'' = ''CS201''"
    by code_simp+
  have one: "length (filter (\<lambda>r. canon r = toUpper ''cs201'') [?a, ?b, ?r2]) \<le> 1"
    by (simp add: ca cb c2 k)
  have d: "distinct (map canon [?r1, ?r2])"
    by (simp add: c1 c2)
  have v: "getCourse True ''cs201''
         (snd (loadData True ''Program_Input.csv''
                (Some [''CS101,Old title'', ''CS101,New title'', ''CS201,Data Structures,CS101''])
                HashTable_ctor))
       = Inr ?r2"
    by code_simp
  from variants_agree_when_codes_distinct
    [of HashTable_ctor HashTable_ctor
        "[''CS101,Old title'', ''CS101,New title'', ''CS201,Data Structures,CS101'']"
        "[?a, ?b, ?r2]"
        "[(''CS101'', ''Old title'', []), (''CS101'', ''New title'', []),
          (''CS201'', ''Data Structures'', ''CS101'')]"
        "''Program_Input.csv''" HashTable_e1_ctor True "''cs201''"]
    variants_agree_when_codes_distinct
    [of HashTable_ctor HashTable_ctor "[''CS101,Intro to CS'', ''CS201,Data Structures,CS101'']"
        "[?r1, ?r2]"
        "[(''CS101'', ''Intro to CS'', []), (''CS201'', ''Data Structures'', ''CS101'')]"
        "''Program_Input.csv''" HashTable_e1_ctor True "''cs101''"]
    ok p q p' q' one d v
  show ?thesis by metis
qed

text \<open>
  The claim as written fails when a code occurs twice: E1 returns the record stored
  last, E2 and E3 the record stored first.
\<close>
theorem variants_differ_on_duplicate_code:
  "getCourse_e1 ''CS101''
       (snd (loadData_e1 ''Program_Input.csv''
              (Some [''CS101,Old title'', ''CS101,New title'']) HashTable_e1_ctor))
     = Inr \<lparr>code = ''CS101'', title = ''New title'', prerequisites = []\<rparr>
   \<and> getCourse True ''CS101''
       (snd (loadData True ''Program_Input.csv''
              (Some [''CS101,Old title'', ''CS101,New title'']) HashTable_ctor))
     = Inr \<lparr>code = ''CS101'', title = ''Old title'', prerequisites = []\<rparr>
   \<and> getCourse_e1 ''CS101''
       (snd (loadData_e1 ''Program_Input.csv''
              (Some [''CS101,Old title'', ''CS101,New title'']) HashTable_e1_ctor))
     \<noteq> getCourse True ''CS101''
       (snd (loadData True ''Program_Input.csv''
              (Some [''CS101,Old title'', ''CS101,New title'']) HashTable_ctor))"
proof -
  have a: "getCourse_e1 ''CS101''
       (snd (loadData_e1 ''Program_Input.csv''
              (Some [''CS101,Old title'', ''CS101,New title'']) HashTable_e1_ctor))
     = Inr \<lparr>code = ''CS101'', title = ''New title'', prerequisites = []\<rparr>"
    by code_simp
  have b: "getCourse True ''CS101''
       (snd (loadData True ''Program_Input.csv''
              (Some [''CS101,Old title'', ''CS101,New title'']) HashTable_ctor))
     = Inr \<lparr>code = ''CS101'', title = ''Old title'', prerequisites = []\<rparr>"
    by code_simp
  show ?thesis
    unfolding a b by simp
qed

section \<open>clearTable and failing loads\<close>

lemma getCourse_flag:
  "getCourse schar c t
     = (if dataLoaded t then getCourse schar c (t\<lparr>dataLoaded := True\<rparr>) else Inl NoDataLoaded)"
  by (simp add: getCourse_def)

lemma getCourse_e1_flag:
  "getCourse_e1 c t
     = (if dataLoaded_e1 t then getCourse_e1 c (t\<lparr>dataLoaded_e1 := True\<rparr>) else Inl NoDataLoaded)"
  by (simp add: getCourse_e1_def)

lemma getCourse_clearTable:
  assumes "table_ok t"
  shows "getCourse schar c (clearTable t)
      = (if dataLoaded t then Inl CourseNotFound else Inl NoDataLoaded)"
proof -
  have "hash schar (toUpper c) < length (table t)"
    using assms hash_less [of schar "toUpper c"] by (simp add: table_ok_def)
  then show ?thesis
    by (simp add: getCourse_def Let_def clearTable_eq)
qed

text \<open>
  Claim C2, as amended. \<^verbatim>\<open>clearTable\<close> of E3 empties every bucket and assigns to
  nothing else: the code list and the loaded flag stay as they are (the reset at the
  start of \<^verbatim>\<open>loadData\<close>, \<^verbatim>\<open>courseOrder.clear(); clearTable();\<close>, empties the code list
  too and still leaves the flag). After it, the lookup
  of any code on a loaded table fails with "Course not found." (on a table never loaded
  with "No data loaded.", as before it), and the sorted listing answers as before. It is
  idempotent.
\<close>
theorem clearTable_empties_buckets_only:
  "table (clearTable t) = replicate (length (table t)) []
   \<and> stored (clearTable t) = []
   \<and> courseOrder (clearTable t) = courseOrder t
   \<and> dataLoaded (clearTable t) = dataLoaded t
   \<and> clearTable (clearTable t) = clearTable t
   \<and> fst (getSortedCourseCodes (clearTable t)) = fst (getSortedCourseCodes t)
   \<and> courseOrder (clearTable (t\<lparr>courseOrder := []\<rparr>)) = []
   \<and> dataLoaded (clearTable (t\<lparr>courseOrder := []\<rparr>)) = dataLoaded t
   \<and> (table_ok t \<longrightarrow>
        getCourse schar c (clearTable t)
          = (if dataLoaded t then Inl CourseNotFound else Inl NoDataLoaded))"
proof -
  have a: "table (clearTable t) = replicate (length (table t)) []"
    by (simp add: clearTable_eq map_replicate_const)
  have b: "stored (clearTable t) = []"
    by (simp add: stored_def a)
  have c: "fst (getSortedCourseCodes (clearTable t)) = fst (getSortedCourseCodes t)"
    by (simp add: getSortedCourseCodes_def Let_def clearTable_eq)
  have d: "clearTable (clearTable t) = clearTable t"
    by (simp add: clearTable_eq)
  from a b c d getCourse_clearTable [of t schar c] show ?thesis
    by (simp add: clearTable_eq)
qed

theorem clearTable_empties_buckets_only_witness:
  "table_ok (snd (loadData_e3 True (Rows [(''CS101'', ''Intro to CS'', [])]) HashTable_ctor))
   \<and> dataLoaded (snd (loadData_e3 True (Rows [(''CS101'', ''Intro to CS'', [])]) HashTable_ctor))
   \<and> getCourse True ''CS101''
        (clearTable (snd (loadData_e3 True (Rows [(''CS101'', ''Intro to CS'', [])]) HashTable_ctor)))
       = Inl CourseNotFound
   \<and> clearTable (clearTable
        (snd (loadData_e3 True (Rows [(''CS101'', ''Intro to CS'', [])]) HashTable_ctor)))
       = clearTable (snd (loadData_e3 True (Rows [(''CS101'', ''Intro to CS'', [])]) HashTable_ctor))"
proof -
  let ?t = "snd (loadData_e3 True (Rows [(''CS101'', ''Intro to CS'', [])]) HashTable_ctor)"
  have ok: "table_ok ?t" and ld: "dataLoaded ?t"
    by code_simp+
  from clearTable_empties_buckets_only [of ?t True "''CS101''"] ok ld
  show ?thesis by simp
qed

text \<open>
  The claim as written fails: after a load of one course and \<^verbatim>\<open>clearTable\<close>, the lookup
  of that course fails with "Course not found.", not with "No data loaded."; the code
  list still holds the code and the table still counts as loaded.
\<close>
theorem clearTable_keeps_flag_and_codes:
  "getCourse True ''CS101''
      (snd (loadData_e3 True (Rows [(''CS101'', ''Intro to CS'', [])]) HashTable_ctor))
     = Inr \<lparr>code = ''CS101'', title = ''Intro to CS'', prerequisites = []\<rparr>
   \<and> getCourse True ''CS101''
      (clearTable (snd (loadData_e3 True (Rows [(''CS101'', ''Intro to CS'', [])]) HashTable_ctor)))
     = Inl CourseNotFound
   \<and> getCourse True ''CS101''
      (clearTable (snd (loadData_e3 True (Rows [(''CS101'', ''Intro to CS'', [])]) HashTable_ctor)))
     \<noteq> Inl NoDataLoaded
   \<and> courseOrder
      (clearTable (snd (loadData_e3 True (Rows [(''CS101'', ''Intro to CS'', [])]) HashTable_ctor)))
     = [''CS101'']
   \<and> dataLoaded
      (clearTable (snd (loadData_e3 True (Rows [(''CS101'', ''Intro to CS'', [])]) HashTable_ctor)))"
proof -
  let ?t = "snd (loadData_e3 True (Rows [(''CS101'', ''Intro to CS'', [])]) HashTable_ctor)"
  have a: "getCourse True ''CS101'' ?t
      = Inr \<lparr>code = ''CS101'', title = ''Intro to CS'', prerequisites = []\<rparr>"
    by code_simp
  have b: "getCourse True ''CS101'' (clearTable ?t) = Inl CourseNotFound"
    by code_simp
  have c: "courseOrder (clearTable ?t) = [''CS101'']"
    by code_simp
  have d: "dataLoaded (clearTable ?t)"
    by code_simp
  from a c d show ?thesis
    unfolding b by simp
qed

text \<open>
  Claim C3, as amended. When \<^verbatim>\<open>loadData\<close> of E2 or E1 throws on a line after some
  lines were stored, the error names that line, the loaded flag is what it was before
  the call (false only if the table was not loaded before), and the table holds exactly
  the records of the lines before the failing one: nothing is rolled back and nothing
  of the table's earlier content is left. So queries fail with "No data loaded." if the
  table was not loaded before, and otherwise answer as after a load of those lines alone.
\<close>
theorem failing_load_leaves_flag_and_partial_data:
  "(table_ok t \<and> map parseCourse good = map Inr rs \<and> parseCourse bad = Inl e \<longrightarrow>
      fst (loadData schar fn (Some (good @ bad # rest)) t)
        = Some (ErrorOnLine (length good + 1) e)
    \<and> dataLoaded (snd (loadData schar fn (Some (good @ bad # rest)) t)) = dataLoaded t
    \<and> courseOrder (snd (loadData schar fn (Some (good @ bad # rest)) t)) = map canon rs
    \<and> mset (stored (snd (loadData schar fn (Some (good @ bad # rest)) t))) = mset rs
    \<and> getCourse schar c (snd (loadData schar fn (Some (good @ bad # rest)) t))
        = (if dataLoaded t then getCourse schar c (snd (loadData schar fn (Some good) t))
           else Inl NoDataLoaded)
    \<and> fst (getSortedCourseCodes (snd (loadData schar fn (Some (good @ bad # rest)) t)))
        = (if dataLoaded t then Inr (sort (map canon rs)) else Inl NoDataLoaded))
   \<and> (map parseCourse good = map Inr rs \<and> parseCourse bad = Inl e \<longrightarrow>
      fst (loadData_e1 fn (Some (good @ bad # rest)) t1)
        = Some (ErrorOnLine (length good + 1) e)
    \<and> dataLoaded_e1 (snd (loadData_e1 fn (Some (good @ bad # rest)) t1)) = dataLoaded_e1 t1
    \<and> courseOrder_e1 (snd (loadData_e1 fn (Some (good @ bad # rest)) t1)) = map canon rs
    \<and> courseMap_e1 (snd (loadData_e1 fn (Some (good @ bad # rest)) t1))
        = courseMap_e1 (snd (loadData_e1 fn (Some good) t1))
    \<and> getCourse_e1 c (snd (loadData_e1 fn (Some (good @ bad # rest)) t1))
        = (if dataLoaded_e1 t1 then getCourse_e1 c (snd (loadData_e1 fn (Some good) t1))
           else Inl NoDataLoaded)
    \<and> fst (getSortedCourseCodes_e1 (snd (loadData_e1 fn (Some (good @ bad # rest)) t1)))
        = (if dataLoaded_e1 t1 then Inr (sort (map canon rs)) else Inl NoDataLoaded))"
proof -
  have A: "fst (loadData schar fn (Some (good @ bad # rest)) t)
        = Some (ErrorOnLine (length good + 1) e)
    \<and> dataLoaded (snd (loadData schar fn (Some (good @ bad # rest)) t)) = dataLoaded t
    \<and> courseOrder (snd (loadData schar fn (Some (good @ bad # rest)) t)) = map canon rs
    \<and> mset (stored (snd (loadData schar fn (Some (good @ bad # rest)) t))) = mset rs
    \<and> getCourse schar c (snd (loadData schar fn (Some (good @ bad # rest)) t))
        = (if dataLoaded t then getCourse schar c (snd (loadData schar fn (Some good) t))
           else Inl NoDataLoaded)
    \<and> fst (getSortedCourseCodes (snd (loadData schar fn (Some (good @ bad # rest)) t)))
        = (if dataLoaded t then Inr (sort (map canon rs)) else Inl NoDataLoaded)"
    if ok: "table_ok t" and p: "map parseCourse good = map Inr rs" and b: "parseCourse bad = Inl e"
  proof -
    let ?X = "insert_all schar rs (cleared t)"
    have l: "loadData schar fn (Some (good @ bad # rest)) t
        = (Some (ErrorOnLine (length good + 1) e), ?X)"
      using p b by (rule loadData_bad)
    have g: "loadData schar fn (Some good) t = (None, ?X\<lparr>dataLoaded := True\<rparr>)"
      using p by (rule loadData_good)
    have f: "dataLoaded ?X = dataLoaded t" and o: "courseOrder ?X = map canon rs"
      by (simp_all add: insert_all_simps cleared_simps canon_fun)
    have m: "mset (stored ?X) = mset rs"
      using ok by (rule stored_after_load)
    have q: "getCourse schar c ?X
        = (if dataLoaded t then getCourse schar c (?X\<lparr>dataLoaded := True\<rparr>) else Inl NoDataLoaded)"
      using getCourse_flag [of schar c ?X] by (simp only: f)
    have s: "fst (getSortedCourseCodes ?X)
        = (if dataLoaded t then Inr (sort (map canon rs)) else Inl NoDataLoaded)"
      by (simp add: getSortedCourseCodes_def Let_def f o)
    show ?thesis
      unfolding l g fst_conv snd_conv using f o m q s by blast
  qed
  have B: "fst (loadData_e1 fn (Some (good @ bad # rest)) t1)
        = Some (ErrorOnLine (length good + 1) e)
    \<and> dataLoaded_e1 (snd (loadData_e1 fn (Some (good @ bad # rest)) t1)) = dataLoaded_e1 t1
    \<and> courseOrder_e1 (snd (loadData_e1 fn (Some (good @ bad # rest)) t1)) = map canon rs
    \<and> courseMap_e1 (snd (loadData_e1 fn (Some (good @ bad # rest)) t1))
        = courseMap_e1 (snd (loadData_e1 fn (Some good) t1))
    \<and> getCourse_e1 c (snd (loadData_e1 fn (Some (good @ bad # rest)) t1))
        = (if dataLoaded_e1 t1 then getCourse_e1 c (snd (loadData_e1 fn (Some good) t1))
           else Inl NoDataLoaded)
    \<and> fst (getSortedCourseCodes_e1 (snd (loadData_e1 fn (Some (good @ bad # rest)) t1)))
        = (if dataLoaded_e1 t1 then Inr (sort (map canon rs)) else Inl NoDataLoaded)"
    if p: "map parseCourse good = map Inr rs" and b: "parseCourse bad = Inl e"
  proof -
    let ?X = "store_all_e1 rs (cleared_e1 t1)"
    have l: "loadData_e1 fn (Some (good @ bad # rest)) t1
        = (Some (ErrorOnLine (length good + 1) e), ?X)"
      using p b by (rule loadData_e1_bad)
    have g: "loadData_e1 fn (Some good) t1 = (None, ?X\<lparr>dataLoaded_e1 := True\<rparr>)"
      using p by (rule loadData_e1_good)
    have f: "dataLoaded_e1 ?X = dataLoaded_e1 t1" and o: "courseOrder_e1 ?X = map canon rs"
      by (simp_all add: store_all_e1_simps cleared_e1_def)
    have m: "courseMap_e1 ?X = courseMap_e1 (?X\<lparr>dataLoaded_e1 := True\<rparr>)"
      by simp
    have q: "getCourse_e1 c ?X
        = (if dataLoaded_e1 t1 then getCourse_e1 c (?X\<lparr>dataLoaded_e1 := True\<rparr>)
           else Inl NoDataLoaded)"
      using getCourse_e1_flag [of c ?X] by (simp only: f)
    have s: "fst (getSortedCourseCodes_e1 ?X)
        = (if dataLoaded_e1 t1 then Inr (sort (map canon rs)) else Inl NoDataLoaded)"
      by (simp add: getSortedCourseCodes_e1_def Let_def f o)
    show ?thesis
      unfolding l g fst_conv snd_conv using f o m q s by blast
  qed
  from A B show ?thesis by blast
qed

theorem failing_load_leaves_flag_and_partial_data_witness:
  "table_ok HashTable_ctor
   \<and> map parseCourse [''CS201,Data Structures,CS101'']
       = map Inr [\<lparr>code = ''CS201'', title = ''Data Structures'', prerequisites = [''CS101'']\<rparr>]
   \<and> parseCourse ''CS301'' = Inl MalformedLine
   \<and> fst (loadData True ''Program_Input.csv''
            (Some ([''CS201,Data Structures,CS101''] @ ''CS301'' # [''CS401,Compilers'']))
            HashTable_ctor)
       = Some (ErrorOnLine 2 MalformedLine)
   \<and> \<not> dataLoaded (snd (loadData True ''Program_Input.csv''
            (Some ([''CS201,Data Structures,CS101''] @ ''CS301'' # [''CS401,Compilers'']))
            HashTable_ctor))
   \<and> courseOrder (snd (loadData True ''Program_Input.csv''
            (Some ([''CS201,Data Structures,CS101''] @ ''CS301'' # [''CS401,Compilers'']))
            HashTable_ctor))
       = [''CS201'']
   \<and> getCourse True ''CS201'' (snd (loadData True ''Program_Input.csv''
            (Some ([''CS201,Data Structures,CS101''] @ ''CS301'' # [''CS401,Compilers'']))
            HashTable_ctor))
       = Inl NoDataLoaded
   \<and> fst (loadData_e1 ''Program_Input.csv''
            (Some ([''CS201,Data Structures,CS101''] @ ''CS301'' # [''CS401,Compilers'']))
            HashTable_e1_ctor)
       = Some (ErrorOnLine 2 MalformedLine)
   \<and> getCourse_e1 ''CS201'' (snd (loadData_e1 ''Program_Input.csv''
            (Some ([''CS201,Data Structures,CS101''] @ ''CS301'' # [''CS401,Compilers'']))
            HashTable_e1_ctor))
       = Inl NoDataLoaded"
proof -
  let ?r = "\<lparr>code = ''CS201'', title = ''Data Structures'', prerequisites = [''CS101'']\<rparr>"
  have ok: "table_ok HashTable_ctor"
    by (simp add: table_ok_def HashTable_ctor_def)
  have p: "map parseCourse [''CS201,Data Structures,CS101''] = map Inr [?r]"
    by code_simp
  have b: "parseCourse ''CS301'' = Inl MalformedLine"
    by code_simp
  have c: "canon ?r = ''CS201''"
    by code_simp
  have u: "\<not> dataLoaded HashTable_ctor" and u1: "\<not> dataLoaded_e1 HashTable_e1_ctor"
    by (simp_all add: HashTable_ctor_def HashTable_e1_ctor_def)
  from failing_load_leaves_flag_and_partial_data
    [of HashTable_ctor "[''CS201,Data Structures,CS101'']" "[?r]" "''CS301''" MalformedLine
        True "''Program_Input.csv''" "[''CS401,Compilers'']" "''CS201''" HashTable_e1_ctor]
    ok p b u u1
  show ?thesis by (simp add: c)
qed

text \<open>
  The claim as written fails for a table that was loaded before: a second load that
  throws on its line 2 leaves the flag true, and the queries answer from line 1.
\<close>
theorem failing_reload_leaves_table_loaded:
  "dataLoaded (snd (loadData True ''Program_Input.csv'' (Some [''CS101,Intro to CS''])
                 HashTable_ctor))
   \<and> fst (loadData True ''Program_Input.csv'' (Some [''CS201,Data Structures,CS101'', ''CS301''])
          (snd (loadData True ''Program_Input.csv'' (Some [''CS101,Intro to CS''])
                 HashTable_ctor)))
       = Some (ErrorOnLine 2 MalformedLine)
   \<and> dataLoaded
        (snd (loadData True ''Program_Input.csv'' (Some [''CS201,Data Structures,CS101'', ''CS301''])
          (snd (loadData True ''Program_Input.csv'' (Some [''CS101,Intro to CS''])
                 HashTable_ctor))))
   \<and> getCourse True ''CS201''
        (snd (loadData True ''Program_Input.csv'' (Some [''CS201,Data Structures,CS101'', ''CS301''])
          (snd (loadData True ''Program_Input.csv'' (Some [''CS101,Intro to CS''])
                 HashTable_ctor))))
       = Inr \<lparr>code = ''CS201'', title = ''Data Structures'', prerequisites = [''CS101'']\<rparr>
   \<and> fst (getSortedCourseCodes
        (snd (loadData True ''Program_Input.csv'' (Some [''CS201,Data Structures,CS101'', ''CS301''])
          (snd (loadData True ''Program_Input.csv'' (Some [''CS101,Intro to CS''])
                 HashTable_ctor)))))
       = Inr [''CS201'']"
  by code_simp

section \<open>Validity of the records that a load stores\<close>

lemma Course_ctor_eq:
  "Course_ctor c ti p
     = (if c = [] \<or> ti = [] then Inl InvalidCourseData
        else Inr \<lparr>code = c, title = ti, prerequisites = p\<rparr>)"
  by (simp add: Course_ctor_def validate_def Let_def)

lemma validate_iff: "validate r = Inr () \<longleftrightarrow> code r \<noteq> [] \<and> title r \<noteq> []"
  by (simp add: validate_def)

lemma Course_ctor_valid: "Course_ctor c ti p = Inr r \<Longrightarrow> validate r = Inr ()"
  by (auto simp: Course_ctor_eq validate_def split: if_splits)

lemma parseCourse_valid: "parseCourse line = Inr r \<Longrightarrow> validate r = Inr ()"
  by (auto simp: parseCourse_def split: option.splits dest: Course_ctor_valid)

lemma row_course_valid: "row_course row = Inr r \<Longrightarrow> validate r = Inr ()"
  by (auto simp: row_course_def split: prod.splits dest: Course_ctor_valid)

lemma load_lines_inserts:
  "\<exists>rs. snd (load_lines schar n lines t) = insert_all schar rs t
      \<and> (\<forall>r \<in> set rs. validate r = Inr ())"
proof (induction lines arbitrary: n t)
  case Nil
  have "snd (load_lines schar n [] t) = insert_all schar [] t \<and> (\<forall>r \<in> set []. validate r = Inr ())"
    by (simp add: insert_all_def)
  then show ?case by blast
next
  case (Cons line lines)
  show ?case
  proof (cases "parseCourse line")
    case (Inl e)
    then have "snd (load_lines schar n (line # lines) t) = insert_all schar [] t
        \<and> (\<forall>r \<in> set []. validate r = Inr ())"
      by (simp add: insert_all_def)
    then show ?thesis by blast
  next
    case (Inr r)
    from Cons.IH [of "Suc n" "insert_ht schar r t"] obtain rs where
      rs: "snd (load_lines schar (Suc n) lines (insert_ht schar r t))
            = insert_all schar rs (insert_ht schar r t)"
        "\<forall>r \<in> set rs. validate r = Inr ()"
      by blast
    have "snd (load_lines schar n (line # lines) t) = insert_all schar (r # rs) t
        \<and> (\<forall>r' \<in> set (r # rs). validate r' = Inr ())"
      using Inr rs parseCourse_valid [OF Inr] by (simp add: insert_all_def)
    then show ?thesis by blast
  qed
qed

lemma load_rows_inserts:
  "\<exists>rs. snd (load_rows schar rows t) = insert_all schar rs t
      \<and> (\<forall>r \<in> set rs. validate r = Inr ())"
proof (induction rows arbitrary: t)
  case Nil
  have "snd (load_rows schar [] t) = insert_all schar [] t \<and> (\<forall>r \<in> set []. validate r = Inr ())"
    by (simp add: insert_all_def)
  then show ?case by blast
next
  case (Cons row rows)
  show ?case
  proof (cases "row_course row")
    case (Inl e)
    then have "snd (load_rows schar (row # rows) t) = insert_all schar [] t
        \<and> (\<forall>r \<in> set []. validate r = Inr ())"
      by (simp add: insert_all_def)
    then show ?thesis by blast
  next
    case (Inr r)
    from Cons.IH [of "insert_ht schar r t"] obtain rs where
      rs: "snd (load_rows schar rows (insert_ht schar r t))
            = insert_all schar rs (insert_ht schar r t)"
        "\<forall>r \<in> set rs. validate r = Inr ()"
      by blast
    have "snd (load_rows schar (row # rows) t) = insert_all schar (r # rs) t
        \<and> (\<forall>r' \<in> set (r # rs). validate r' = Inr ())"
      using Inr rs row_course_valid [OF Inr] by (simp add: insert_all_def)
    then show ?thesis by blast
  qed
qed

lemma load_lines_e1_stores:
  "\<exists>rs. snd (load_lines_e1 n lines t) = store_all_e1 rs t
      \<and> (\<forall>r \<in> set rs. validate r = Inr ())"
proof (induction lines arbitrary: n t)
  case Nil
  have "snd (load_lines_e1 n [] t) = store_all_e1 [] t \<and> (\<forall>r \<in> set []. validate r = Inr ())"
    by (simp add: store_all_e1_def)
  then show ?case by blast
next
  case (Cons line lines)
  show ?case
  proof (cases "parseCourse line")
    case (Inl e)
    then have "snd (load_lines_e1 n (line # lines) t) = store_all_e1 [] t
        \<and> (\<forall>r \<in> set []. validate r = Inr ())"
      by (simp add: store_all_e1_def)
    then show ?thesis by blast
  next
    case (Inr r)
    from Cons.IH [of "Suc n" "store_e1 r t"] obtain rs where
      rs: "snd (load_lines_e1 (Suc n) lines (store_e1 r t)) = store_all_e1 rs (store_e1 r t)"
        "\<forall>r \<in> set rs. validate r = Inr ()"
      by blast
    have "snd (load_lines_e1 n (line # lines) t) = store_all_e1 (r # rs) t
        \<and> (\<forall>r' \<in> set (r # rs). validate r' = Inr ())"
      using Inr rs parseCourse_valid [OF Inr] by (simp add: store_all_e1_def)
    then show ?thesis by blast
  qed
qed

lemma store_all_e1_entries:
  "courseMap_e1 (store_all_e1 rs t) k = Some r \<Longrightarrow> courseMap_e1 t k = Some r \<or> r \<in> set rs"
  unfolding store_all_e1_def
proof (induction rs arbitrary: t)
  case Nil
  then show ?case by simp
next
  case (Cons x xs)
  from Cons.IH [of "store_e1 x t"] Cons.prems
  have "courseMap_e1 (store_e1 x t) k = Some r \<or> r \<in> set xs"
    by simp
  then show ?case
    by (auto simp: store_e1_simps split: if_splits)
qed

lemma stored_flag: "stored (t\<lparr>dataLoaded := b\<rparr>) = stored t"
  by (simp add: stored_def)

lemma loadData_stored_valid:
  assumes ok: "table_ok t" and r: "r \<in> set (stored (snd (loadData schar fn (Some lines) t)))"
  shows "validate r = Inr ()"
proof -
  obtain rs where rs: "snd (load_lines schar 0 lines (cleared t)) = insert_all schar rs (cleared t)"
      "\<forall>r \<in> set rs. validate r = Inr ()"
    using load_lines_inserts [of schar 0 lines "cleared t"] by blast
  have "stored (snd (loadData schar fn (Some lines) t)) = stored (insert_all schar rs (cleared t))"
    using rs(1) by (cases "load_lines schar 0 lines (cleared t)")
      (auto simp: loadData_def cleared_def stored_flag split: option.splits)
  then have "mset (stored (snd (loadData schar fn (Some lines) t))) = mset rs"
    using stored_after_load [OF ok] by simp
  then have "set (stored (snd (loadData schar fn (Some lines) t))) = set rs"
    by (rule mset_eq_setD)
  with r rs(2) show ?thesis by blast
qed

lemma loadData_e3_stored_valid:
  assumes ok: "table_ok t" and r: "r \<in> set (stored (snd (loadData_e3 schar (Rows rows) t)))"
  shows "validate r = Inr ()"
proof -
  obtain rs where rs: "snd (load_rows schar rows (cleared t)) = insert_all schar rs (cleared t)"
      "\<forall>r \<in> set rs. validate r = Inr ()"
    using load_rows_inserts [of schar rows "cleared t"] by blast
  have "stored (snd (loadData_e3 schar (Rows rows) t)) = stored (insert_all schar rs (cleared t))"
    using rs(1) by (cases "load_rows schar rows (cleared t)")
      (auto simp: loadData_e3_def clearTable_cleared stored_flag split: option.splits)
  then have "mset (stored (snd (loadData_e3 schar (Rows rows) t))) = mset rs"
    using stored_after_load [OF ok] by simp
  then have "set (stored (snd (loadData_e3 schar (Rows rows) t))) = set rs"
    by (rule mset_eq_setD)
  with r rs(2) show ?thesis by blast
qed

lemma loadData_e1_stored_valid:
  assumes r: "courseMap_e1 (snd (loadData_e1 fn (Some lines) t)) k = Some r"
  shows "validate r = Inr ()"
proof -
  obtain rs where rs: "snd (load_lines_e1 0 lines (cleared_e1 t)) = store_all_e1 rs (cleared_e1 t)"
      "\<forall>r \<in> set rs. validate r = Inr ()"
    using load_lines_e1_stores [of 0 lines "cleared_e1 t"] by blast
  have "courseMap_e1 (snd (loadData_e1 fn (Some lines) t))
      = courseMap_e1 (store_all_e1 rs (cleared_e1 t))"
    using rs(1) by (cases "load_lines_e1 0 lines (cleared_e1 t)")
      (auto simp: loadData_e1_def cleared_e1_def split: option.splits)
  with r have "courseMap_e1 (store_all_e1 rs (cleared_e1 t)) k = Some r"
    by simp
  then have "courseMap_e1 (cleared_e1 t) k = Some r \<or> r \<in> set rs"
    by (rule store_all_e1_entries)
  then have "r \<in> set rs"
    by (simp add: cleared_e1_def)
  with rs(2) show ?thesis by blast
qed

text \<open>
  Claim C6, as amended. The validating constructor \<^verbatim>\<open>Course(code, title, prerequisites)\<close>
  succeeds exactly when code and title are both non-empty, and then stores the three
  arguments verbatim; otherwise it fails with "Invalid Course Data: Code or Title is
  missing.", whatever the prerequisites are. A record with an empty code or title can
  only come from the default constructor, and no load stores one: every record held by
  a table after \<^verbatim>\<open>loadData\<close> (of E1, E2 or E3, whether it succeeded or threw) has a
  non-empty code and a non-empty title.
\<close>
theorem validating_constructor_and_stored_records:
  "Course_ctor c ti p
     = (if c = [] \<or> ti = [] then Inl InvalidCourseData
        else Inr \<lparr>code = c, title = ti, prerequisites = p\<rparr>)
   \<and> (c \<noteq> [] \<and> ti \<noteq> [] \<longrightarrow>
        Course_ctor c ti p = Inr \<lparr>code = c, title = ti, prerequisites = p\<rparr>)
   \<and> (c = [] \<or> ti = [] \<longrightarrow> Course_ctor c ti p = Inl InvalidCourseData)
   \<and> (\<forall>r. Course_ctor c ti p = Inr r \<longrightarrow>
        code r \<noteq> [] \<and> title r \<noteq> [] \<and> prerequisites r = p)
   \<and> (table_ok t \<longrightarrow>
        (\<forall>r \<in> set (stored (snd (loadData schar fn (Some lines) t))).
           code r \<noteq> [] \<and> title r \<noteq> []))
   \<and> (table_ok t \<longrightarrow>
        (\<forall>r \<in> set (stored (snd (loadData_e3 schar (Rows rows) t))).
           code r \<noteq> [] \<and> title r \<noteq> []))
   \<and> (\<forall>k r. courseMap_e1 (snd (loadData_e1 fn (Some lines) t1)) k = Some r \<longrightarrow>
        code r \<noteq> [] \<and> title r \<noteq> [])"
proof -
  have a: "code r \<noteq> [] \<and> title r \<noteq> [] \<and> prerequisites r = p"
    if "Course_ctor c ti p = Inr r" for r
    using that by (auto simp: Course_ctor_eq split: if_splits)
  have b: "code r \<noteq> [] \<and> title r \<noteq> []"
    if "table_ok t" "r \<in> set (stored (snd (loadData schar fn (Some lines) t)))" for r
    using loadData_stored_valid [OF that] by (simp add: validate_iff)
  have c: "code r \<noteq> [] \<and> title r \<noteq> []"
    if "table_ok t" "r \<in> set (stored (snd (loadData_e3 schar (Rows rows) t)))" for r
    using loadData_e3_stored_valid [OF that] by (simp add: validate_iff)
  have d: "code r \<noteq> [] \<and> title r \<noteq> []"
    if "courseMap_e1 (snd (loadData_e1 fn (Some lines) t1)) k = Some r" for k r
    using loadData_e1_stored_valid [OF that] by (simp add: validate_iff)
  have e: "Course_ctor c ti p = Inr \<lparr>code = c, title = ti, prerequisites = p\<rparr>"
    if "c \<noteq> [] \<and> ti \<noteq> []"
    using that by (simp add: Course_ctor_eq)
  have f: "Course_ctor c ti p = Inl InvalidCourseData" if "c = [] \<or> ti = []"
    using that by (auto simp: Course_ctor_eq)
  from a b c d e f Course_ctor_eq [of c ti p] show ?thesis
    by blast
qed

theorem validating_constructor_and_stored_records_witness:
  "''CS201'' \<noteq> [] \<and> ''Data Structures'' \<noteq> []
   \<and> Course_ctor ''CS201'' ''Data Structures'' [''CS101'', ''CS101'', ''CS201'']
       = Inr \<lparr>code = ''CS201'', title = ''Data Structures'',
               prerequisites = [''CS101'', ''CS101'', ''CS201'']\<rparr>
   \<and> Course_ctor [] ''Data Structures'' [''CS101''] = Inl InvalidCourseData
   \<and> Course_ctor ''CS201'' [] [''CS101''] = Inl InvalidCourseData
   \<and> table_ok HashTable_ctor
   \<and> \<lparr>code = ''CS101'', title = ''Intro to CS'', prerequisites = []\<rparr>
       \<in> set (stored (snd (loadData True ''Program_Input.csv''
                 (Some [''CS101,Intro to CS'', '',No code'']) HashTable_ctor)))
   \<and> fst (loadData True ''Program_Input.csv''
            (Some [''CS101,Intro to CS'', '',No code'']) HashTable_ctor)
       = Some (ErrorOnLine 2 InvalidCourseData)
   \<and> courseMap_e1 (snd (loadData_e1 ''Program_Input.csv''
          (Some [''CS101,Intro to CS'', '',No code'']) HashTable_e1_ctor)) ''CS101''
       = Some \<lparr>code = ''CS101'', title = ''Intro to CS'', prerequisites = []\<rparr>
   \<and> code \<lparr>code = ''CS101'', title = ''Intro to CS'', prerequisites = []\<rparr> \<noteq> []"
proof -
  have n: "''CS201'' \<noteq> [] \<and> ''Data Structures'' \<noteq> []"
    by simp
  have ok: "table_ok HashTable_ctor"
    by (simp add: table_ok_def HashTable_ctor_def)
  have m: "\<lparr>code = ''CS101'', title = ''Intro to CS'', prerequisites = []\<rparr>
       \<in> set (stored (snd (loadData True ''Program_Input.csv''
                 (Some [''CS101,Intro to CS'', '',No code'']) HashTable_ctor)))"
    by code_simp
  have l: "fst (loadData True ''Program_Input.csv''
            (Some [''CS101,Intro to CS'', '',No code'']) HashTable_ctor)
       = Some (ErrorOnLine 2 InvalidCourseData)"
    by code_simp
  have m1: "courseMap_e1 (snd (loadData_e1 ''Program_Input.csv''
          (Some [''CS101,Intro to CS'', '',No code'']) HashTable_e1_ctor)) ''CS101''
       = Some \<lparr>code = ''CS101'', title = ''Intro to CS'', prerequisites = []\<rparr>"
    by code_simp
  from validating_constructor_and_stored_records
      [of "''CS201''" "''Data Structures''" "[''CS101'', ''CS101'', ''CS201'']" HashTable_ctor
          True "''Program_Input.csv''" "[''CS101,Intro to CS'', '',No code'']" "[]"
          HashTable_e1_ctor]
    validating_constructor_and_stored_records
      [of "[]" "''Data Structures''" "[''CS101'']" HashTable_ctor True "[]" "[]" "[]"
          HashTable_e1_ctor]
    validating_constructor_and_stored_records
      [of "''CS201''" "[]" "[''CS101'']" HashTable_ctor True "[]" "[]" "[]" HashTable_e1_ctor]
    n ok m l m1
  show ?thesis by blast
qed

text \<open>
  The claim as written fails: the class has a second, public constructor,
  \<^verbatim>\<open>Course() {}\<close>, which validates nothing. The record it makes has an empty code and
  an empty title and fails the class's own \<^verbatim>\<open>validate\<close>.
\<close>
theorem default_constructor_makes_invalid_record:
  "code Course_default = []
   \<and> title Course_default = []
   \<and> validate Course_default = Inl InvalidCourseData"
  by (simp add: Course_default_def validate_def)

end
